theory Spec2Isabelle
  imports Complex_Main
begin

section \<open>Data model\<close>

text \<open>
  The graph types of \<^verbatim>\<open>types/ComponentsType.ts\<close>. Only the fields the layout, clustering
  and expansion code reads are kept; an optional field is an \<open>option\<close>. The fields \<open>text\<close>,
  \<open>from\<close> and \<open>to\<close> are named \<open>node_text\<close>, \<open>edge_from\<close> and \<open>edge_to\<close>. JavaScript numbers
  are modelled as real numbers in the layout (radii, angles and the positions computed from
  them), as integers (indices, group sizes) or as naturals (depths, counts). The bounds and
  the clustering take their positions from the caller: there a number is finite, \<open>NaN\<close> or
  infinite. Rounding and signed zeros are outside the model.
\<close>

record NetworkNode =
  key :: string
  node_text :: string
  icon :: string
  expandable :: "bool option"

record NetworkEdge =
  edge_from :: string
  edge_to :: string

record NodePos =
  pos_x :: real
  pos_y :: real

record InternalNodeInfo =
  depth :: nat
  parent :: "string option"

datatype error = TypeError

subsection \<open>JavaScript \<open>Map\<close>: an association list in insertion order\<close>

text \<open>
  \<open>Map.get\<close> is \<open>map_of\<close>; \<open>Map.set\<close> overwrites the value of an existing key in place and
  appends a new key at the end, so that iteration follows insertion order.
\<close>

type_synonym ('k, 'v) js_map = "('k \<times> 'v) list"

fun js_set :: "('k, 'v) js_map \<Rightarrow> 'k \<Rightarrow> 'v \<Rightarrow> ('k, 'v) js_map" where
  "js_set [] k v = [(k, v)]"
| "js_set ((k', v') # m) k v = (if k' = k then (k, v) # m else (k', v') # js_set m k v)"

definition js_has :: "('k, 'v) js_map \<Rightarrow> 'k \<Rightarrow> bool" where
  "js_has m k = (map_of m k \<noteq> None)"

definition js_keys :: "('k, 'v) js_map \<Rightarrow> 'k list" where
  "js_keys m = map fst m"

text \<open>A loop whose body may throw: the first error ends it.\<close>

fun foldE :: "('a \<Rightarrow> 's \<Rightarrow> error + 's) \<Rightarrow> 'a list \<Rightarrow> 's \<Rightarrow> error + 's" where
  "foldE f [] s = Inr s"
| "foldE f (a # as) s = (case f a s of Inl e \<Rightarrow> Inl e | Inr s' \<Rightarrow> foldE f as s')"

section \<open>Level resolver: \<open>computeTreeLevels\<close>\<close>

type_synonym adjacency = "(string, string list) js_map"
type_synonym levels = "(string, InternalNodeInfo) js_map"

text \<open>\<open>adj.get(k)!.push(v)\<close>: a \<open>TypeError\<close> when \<open>k\<close> has no entry.\<close>

definition adj_push :: "adjacency \<Rightarrow> string \<Rightarrow> string \<Rightarrow> error + adjacency" where
  "adj_push adj k v =
     (case map_of adj k of
        None \<Rightarrow> Inl TypeError
      | Some l \<Rightarrow> Inr (js_set adj k (l @ [v])))"

definition add_edge :: "string set \<Rightarrow> NetworkEdge \<Rightarrow> adjacency \<Rightarrow> error + adjacency" where
  "add_edge nodeSet e adj =
     (if edge_from e \<notin> nodeSet \<or> edge_to e \<notin> nodeSet then Inr adj
      else case adj_push adj (edge_from e) (edge_to e) of
             Inl err \<Rightarrow> Inl err
           | Inr adj' \<Rightarrow> adj_push adj' (edge_to e) (edge_from e))"

definition build_adj :: "NetworkNode list \<Rightarrow> NetworkEdge list \<Rightarrow> error + adjacency" where
  "build_adj nodes edges =
     foldE (add_edge (set (map key nodes))) edges
       (fold (\<lambda>n adj. js_set adj (key n) []) nodes [])"

text \<open>The body of the inner \<open>for (const nb of adj.get(cur) || [])\<close> loop.\<close>

definition visit ::
  "string \<Rightarrow> InternalNodeInfo \<Rightarrow> string \<Rightarrow> levels \<times> string list \<Rightarrow> levels \<times> string list" where
  "visit cur curInfo nb s =
     (case s of (res, q) \<Rightarrow>
        if js_has res nb then (res, q)
        else (js_set res nb \<lparr>depth = depth curInfo + 1, parent = Some cur\<rparr>, q @ [nb]))"

definition neighbours :: "adjacency \<Rightarrow> string \<Rightarrow> string list" where
  "neighbours adj cur = (case map_of adj cur of None \<Rightarrow> [] | Some nbs \<Rightarrow> nbs)"

definition expand ::
  "adjacency \<Rightarrow> string \<Rightarrow> InternalNodeInfo \<Rightarrow> levels \<times> string list \<Rightarrow> levels \<times> string list" where
  "expand adj cur curInfo s = fold (visit cur curInfo) (neighbours adj cur) s"

text \<open>
  The \<open>while (q.length)\<close> loop. \<open>res.get(cur)!\<close> followed by \<open>.depth\<close> throws a
  \<open>TypeError\<close> when the queue head has no entry.
\<close>

function bfs :: "adjacency \<Rightarrow> nat \<Rightarrow> levels \<Rightarrow> string list \<Rightarrow> error + levels" where
  "bfs adj maxDepth res [] = Inr res"
| "bfs adj maxDepth res (cur # q) =
     (case map_of res cur of
        None \<Rightarrow> Inl TypeError
      | Some curInfo \<Rightarrow>
          if depth curInfo \<ge> maxDepth then bfs adj maxDepth res q
          else bfs adj maxDepth (fst (expand adj cur curInfo (res, q)))
                 (snd (expand adj cur curInfo (res, q))))"
  by pat_completeness auto

definition computeTreeLevels ::
  "NetworkNode list \<Rightarrow> NetworkEdge list \<Rightarrow> string \<Rightarrow> nat \<Rightarrow> error + levels" where
  "computeTreeLevels nodes edges centerKey maxDepth =
     (case build_adj nodes edges of
        Inl err \<Rightarrow> Inl err
      | Inr adj \<Rightarrow>
          if centerKey \<notin> set (map key nodes) then Inr []
          else bfs adj maxDepth [(centerKey, \<lparr>depth = 0, parent = None\<rparr>)] [centerKey])"

section \<open>Radial layout calculator\<close>

type_synonym positions = "(string, NodePos) js_map"
type_synonym children = "(string, string list) js_map"

definition clamp :: "real \<Rightarrow> real \<Rightarrow> real \<Rightarrow> real" where
  "clamp n mn mx = max mn (min mx n)"

definition degToRad :: "real \<Rightarrow> real" where
  "degToRad deg = (deg * pi) / 180"

text \<open>\<open>Math.atan2\<close> on real arguments (there is no signed zero in the model).\<close>

definition atan2 :: "real \<Rightarrow> real \<Rightarrow> real" where
  "atan2 b a =
     (if a > 0 then arctan (b / a)
      else if a < 0 then (if b \<ge> 0 then arctan (b / a) + pi else arctan (b / a) - pi)
      else if b > 0 then pi / 2
      else if b < 0 then - (pi / 2)
      else 0)"

text \<open>\<open>Math.round\<close>: halves round up.\<close>

definition Math_round :: "real \<Rightarrow> int" where
  "Math_round v = \<lfloor>v + 1 / 2\<rfloor>"

text \<open>\<open>Array.prototype.indexOf\<close>: the first index, or \<open>-1\<close>.\<close>

fun indexOf :: "'a list \<Rightarrow> 'a \<Rightarrow> int" where
  "indexOf [] k = - 1"
| "indexOf (a # as) k =
     (if a = k then 0 else if indexOf as k = - 1 then - 1 else indexOf as k + 1)"

text \<open>
  \<open>Array.prototype.sort\<close> with a comparator: a stable sort. The comparator of the source is
  \<open>String.prototype.localeCompare\<close>, which belongs to the host's locale support and is a
  parameter here.
\<close>

fun insort_cmp :: "('a \<Rightarrow> 'a \<Rightarrow> int) \<Rightarrow> 'a \<Rightarrow> 'a list \<Rightarrow> 'a list" where
  "insort_cmp cmp a [] = [a]"
| "insort_cmp cmp a (b # bs) = (if cmp a b \<le> 0 then a # b # bs else b # insort_cmp cmp a bs)"

definition sort_cmp :: "('a \<Rightarrow> 'a \<Rightarrow> int) \<Rightarrow> 'a list \<Rightarrow> 'a list" where
  "sort_cmp cmp xs = foldr (insort_cmp cmp) xs []"

definition origin :: NodePos where
  "origin = \<lparr>pos_x = 0, pos_y = 0\<rparr>"

text \<open>
  \<open>byDepth[info.depth].push(n.key)\<close>: the table has the keys 0 to 7 only, so a deeper level
  is a \<open>TypeError\<close>.
\<close>

definition push_byDepth ::
  "levels \<Rightarrow> NetworkNode \<Rightarrow> (nat \<Rightarrow> string list) \<Rightarrow> error + (nat \<Rightarrow> string list)" where
  "push_byDepth lv n bd =
     (case map_of lv (key n) of
        None \<Rightarrow> Inr bd
      | Some info \<Rightarrow>
          if depth info > 7 then Inl TypeError
          else Inr (bd(depth info := bd (depth info) @ [key n])))"

definition byDepth :: "levels \<Rightarrow> NetworkNode list \<Rightarrow> error + (nat \<Rightarrow> string list)" where
  "byDepth lv nodes = foldE (push_byDepth lv) nodes (\<lambda>d. [])"

text \<open>Depth 1 on a circle: the loop over \<open>i\<close> and \<open>lvl1[i]\<close>.\<close>

definition place_circle :: "real \<Rightarrow> string list \<Rightarrow> positions \<Rightarrow> positions" where
  "place_circle r1 lvl1 positions =
     fold (\<lambda>(i, k) pos.
             let a = (real i / real (max 1 (length lvl1))) * pi * 2
             in js_set pos k \<lparr>pos_x = cos a * r1, pos_y = sin a * r1\<rparr>)
       (enumerate 0 lvl1) positions"

text \<open>
  Children grouped by parent. \<open>!info.parent\<close> holds for a missing parent and for the empty
  string.
\<close>

definition add_child :: "string \<times> InternalNodeInfo \<Rightarrow> children \<Rightarrow> children" where
  "add_child entry cbp =
     (case entry of (k, info) \<Rightarrow>
        (case parent info of
           None \<Rightarrow> cbp
         | Some p \<Rightarrow>
             if p = [] then cbp
             else js_set cbp p ((case map_of cbp p of None \<Rightarrow> [] | Some l \<Rightarrow> l) @ [k])))"

definition childrenByParent :: "levels \<Rightarrow> children" where
  "childrenByParent lv = fold add_child lv []"

definition sibling_t :: "string list \<Rightarrow> string \<Rightarrow> real" where
  "sibling_t siblings k =
     (if length siblings = 1 then 0
      else real_of_int (indexOf siblings k) / (real (length siblings) - 1))"

text \<open>\<open>positions.get(parentKey) || { x: 0, y: 0 }\<close>\<close>

definition parent_position :: "positions \<Rightarrow> string \<Rightarrow> NodePos" where
  "parent_position positions parentKey =
     (case map_of positions parentKey of None \<Rightarrow> origin | Some p \<Rightarrow> p)"

text \<open>
  The body of the loop over the keys of one depth, in \<open>computeRadialLayout\<close>:
  \<open>child_position\<close> is the point handed to \<open>positions.set(key, ...)\<close>.
\<close>

definition child_position ::
  "children \<Rightarrow> real \<Rightarrow> real \<Rightarrow> string \<Rightarrow> string \<Rightarrow> NodePos \<Rightarrow> NodePos" where
  "child_position cbp childSpreadDeg r k parentKey parentPos =
     (let parentAngle = atan2 (pos_y parentPos) (pos_x parentPos);
          siblings = (case map_of cbp parentKey of None \<Rightarrow> [k] | Some s \<Rightarrow> s);
          spread = degToRad childSpreadDeg;
          t = sibling_t siblings k;
          angle = parentAngle - spread / 2 + t * spread
      in \<lparr>pos_x = pos_x parentPos + cos angle * r,
          pos_y = pos_y parentPos + sin angle * r\<rparr>)"

definition place_child ::
  "levels \<Rightarrow> children \<Rightarrow> real \<Rightarrow> real \<Rightarrow> string \<Rightarrow> positions \<Rightarrow> positions" where
  "place_child lv cbp childSpreadDeg r k positions =
     (case map_of lv k of
        None \<Rightarrow> positions
      | Some info \<Rightarrow>
          (case parent info of
             None \<Rightarrow> positions
           | Some parentKey \<Rightarrow>
               if parentKey = [] then positions
               else js_set positions k
                      (child_position cbp childSpreadDeg r k parentKey
                         (parent_position positions parentKey))))"

definition place_depth ::
  "levels \<Rightarrow> children \<Rightarrow> real \<Rightarrow> nat \<Rightarrow> (nat \<Rightarrow> real) \<Rightarrow> (nat \<Rightarrow> string list) \<Rightarrow>
   nat \<Rightarrow> positions \<Rightarrow> positions" where
  "place_depth lv cbp childSpreadDeg maxDepth radii bd d positions =
     (if d > maxDepth then positions
      else fold (place_child lv cbp childSpreadDeg (radii d)) (bd d) positions)"

definition computeRadialLayout ::
  "NetworkNode list \<Rightarrow> NetworkEdge list \<Rightarrow> string \<Rightarrow> nat \<Rightarrow> (nat \<Rightarrow> real) \<Rightarrow> real \<Rightarrow>
   error + positions" where
  "computeRadialLayout nodes edges centerKey maxDepth radii childSpreadDeg =
     (case computeTreeLevels nodes edges centerKey maxDepth of
        Inl err \<Rightarrow> Inl err
      | Inr lv \<Rightarrow>
          (case byDepth lv nodes of
             Inl err \<Rightarrow> Inl err
           | Inr bd \<Rightarrow>
               Inr (fold (place_depth lv (childrenByParent lv) childSpreadDeg maxDepth radii bd)
                      [2, 3]
                      (place_circle (radii 1) (bd 1) [(centerKey, origin)]))))"

subsection \<open>Advanced layout: rectangular rings\<close>

datatype Level1Type = circle | rectRings

record Level1Layout =
  l1_type :: Level1Type
  l1_halfW :: "real option"
  l1_halfH :: "real option"
  l1_outerRatio :: "real option"
  l1_innerScale :: "real option"

record NodeBox =
  box_w :: real
  box_h :: real
  box_pad :: "real option"

definition RING_U_OFFSET :: real where
  "RING_U_OFFSET = 15 / 1000"

definition pointOnRectPerimeter :: "real \<Rightarrow> real \<Rightarrow> real \<Rightarrow> NodePos" where
  "pointOnRectPerimeter u halfW halfH =
     (let W = halfW * 2;
          H = halfH * 2;
          perim = 2 * (W + H);
          d = (u - of_int \<lfloor>u\<rfloor>) * perim
      in if d \<le> H then \<lparr>pos_x = halfW, pos_y = - halfH + d\<rparr>
         else let d = d - H
              in if d \<le> W then \<lparr>pos_x = halfW - d, pos_y = halfH\<rparr>
                 else let d = d - W
                      in if d \<le> H then \<lparr>pos_x = - halfW, pos_y = halfH - d\<rparr>
                         else let d = d - H
                              in \<lparr>pos_x = - halfW + d, pos_y = - halfH\<rparr>)"

text \<open>The result \<open>{nx, ny, tx, ty}\<close> as a tuple.\<close>

definition rectOutwardNormal :: "NodePos \<Rightarrow> real \<Rightarrow> real \<Rightarrow> real \<times> real \<times> real \<times> real" where
  "rectOutwardNormal p halfW halfH =
     (let dx = halfW - \<bar>pos_x p\<bar>;
          dy = halfH - \<bar>pos_y p\<bar>
      in if dx < dy then ((if pos_x p \<ge> 0 then 1 else - 1), 0, 0, 1)
         else (0, (if pos_y p \<ge> 0 then 1 else - 1), 1, 0))"

definition nodeByKey :: "NetworkNode list \<Rightarrow> (string, NetworkNode) js_map" where
  "nodeByKey nodes = fold (\<lambda>n m. js_set m (key n) n) nodes []"

text \<open>\<open>n && isExpandable(n)\<close> for the node of a key; the default predicate is constantly false.\<close>

definition key_expandable ::
  "NetworkNode list \<Rightarrow> (NetworkNode \<Rightarrow> bool) option \<Rightarrow> string \<Rightarrow> bool" where
  "key_expandable nodes isExpandable k =
     (case map_of (nodeByKey nodes) k of
        None \<Rightarrow> False
      | Some n \<Rightarrow> (case isExpandable of None \<Rightarrow> False | Some f \<Rightarrow> f n))"

text \<open>The loop that fills the outer ring with non-expandable keys until \<open>outerCount\<close>.\<close>

fun fill_outer :: "int \<Rightarrow> string list \<Rightarrow> string list \<Rightarrow> string list" where
  "fill_outer outerCount outerKeys [] = outerKeys"
| "fill_outer outerCount outerKeys (k # ks) =
     (if int (length outerKeys) \<ge> outerCount then outerKeys
      else fill_outer outerCount (outerKeys @ [k]) ks)"

definition rect_halfW :: "Level1Layout \<Rightarrow> (nat \<Rightarrow> real) \<Rightarrow> real" where
  "rect_halfW l1 radii = max 120 (case l1_halfW l1 of None \<Rightarrow> radii 1 | Some v \<Rightarrow> v)"

definition rect_halfH :: "Level1Layout \<Rightarrow> (nat \<Rightarrow> real) \<Rightarrow> real" where
  "rect_halfH l1 radii = max 120 (case l1_halfH l1 of None \<Rightarrow> radii 1 | Some v \<Rightarrow> v)"

definition place_ring ::
  "real \<Rightarrow> real \<Rightarrow> real \<Rightarrow> real \<Rightarrow> string list \<Rightarrow> positions \<Rightarrow> positions" where
  "place_ring halfW halfH uOffset ringScale ringKeys positions =
     fold (\<lambda>(i, k) pos.
             let uBase = real i / real (max 1 (length ringKeys));
                 u = uBase + uOffset;
                 p = pointOnRectPerimeter u halfW halfH
             in js_set pos k \<lparr>pos_x = pos_x p * ringScale, pos_y = pos_y p * ringScale\<rparr>)
       (enumerate 0 ringKeys) positions"

definition outer_keys ::
  "NetworkNode list \<Rightarrow> (NetworkNode \<Rightarrow> bool) option \<Rightarrow> Level1Layout \<Rightarrow> string list \<Rightarrow> string list" where
  "outer_keys nodes isExpandable l1 lvl1 =
     (let expandableLvl1 = filter (key_expandable nodes isExpandable) lvl1;
          nonExpandableLvl1 = filter (\<lambda>k. \<not> key_expandable nodes isExpandable k) lvl1;
          outerRatio = clamp (case l1_outerRatio l1 of None \<Rightarrow> 55 / 100 | Some v \<Rightarrow> v) (5 / 100) (95 / 100);
          outerCount = max 1 (Math_round (real (length lvl1) * outerRatio))
      in fill_outer outerCount expandableLvl1 nonExpandableLvl1)"

definition place_level1 ::
  "NetworkNode list \<Rightarrow> (NetworkNode \<Rightarrow> bool) option \<Rightarrow> Level1Layout option \<Rightarrow> (nat \<Rightarrow> real) \<Rightarrow>
   string list \<Rightarrow> positions \<Rightarrow> positions" where
  "place_level1 nodes isExpandable level1Layout radii lvl1 positions =
     (let l1 = (case level1Layout of
                  None \<Rightarrow> \<lparr>l1_type = circle, l1_halfW = None, l1_halfH = None,
                            l1_outerRatio = None, l1_innerScale = None\<rparr>
                | Some l \<Rightarrow> l)
      in if l1_type l1 = rectRings then
           let halfW = rect_halfW l1 radii;
               halfH = rect_halfH l1 radii;
               innerScale = clamp (case l1_innerScale l1 of None \<Rightarrow> 72 / 100 | Some v \<Rightarrow> v) (2 / 10) (98 / 100);
               outerKeys = outer_keys nodes isExpandable l1 lvl1;
               innerKeys = filter (\<lambda>k. k \<notin> set outerKeys) lvl1
           in place_ring halfW halfH (RING_U_OFFSET * 0) innerScale innerKeys
                (place_ring halfW halfH (RING_U_OFFSET * 1) 1 outerKeys positions)
         else place_circle (radii 1) lvl1 positions)"

text \<open>
  The body of the loop over the keys of one depth, in \<open>computeRadialLayoutAdvanced\<close>:
  \<open>child_position_advanced\<close> is the point handed to \<open>positions.set(key, ...)\<close> by the branch
  taken (fan around the outward normal, comb along the tangent, or the arc of the circle
  layout).
\<close>

definition child_position_advanced ::
  "NetworkNode list \<Rightarrow> (NetworkNode \<Rightarrow> bool) option \<Rightarrow> Level1Layout option \<Rightarrow> NodeBox option \<Rightarrow>
   children \<Rightarrow> real \<Rightarrow> (nat \<Rightarrow> real) \<Rightarrow> nat \<Rightarrow> string \<Rightarrow> string \<Rightarrow> NodePos \<Rightarrow> NodePos" where
  "child_position_advanced nodes isExpandable level1Layout nodeBox cbp childSpreadDeg radii d k
       parentKey parentPos =
     (let spread = degToRad childSpreadDeg;
          siblings = (case map_of cbp parentKey of None \<Rightarrow> [k] | Some s \<Rightarrow> s);
          t = sibling_t siblings k;
          offset = t - 1 / 2
      in (case (case level1Layout of
                  None \<Rightarrow> None
                | Some l1 \<Rightarrow> if l1_type l1 = rectRings then Some l1 else None) of
            Some l1 \<Rightarrow>
              (case rectOutwardNormal parentPos (rect_halfW l1 radii) (rect_halfH l1 radii) of
                 (nx, ny, tx, ty) \<Rightarrow>
                   let boxW = (case nodeBox of None \<Rightarrow> 120 | Some b \<Rightarrow> box_w b);
                       boxH = (case nodeBox of None \<Rightarrow> 60 | Some b \<Rightarrow> box_h b);
                       pad = (case nodeBox of
                                None \<Rightarrow> 10
                              | Some b \<Rightarrow> (case box_pad b of None \<Rightarrow> 10 | Some v \<Rightarrow> v));
                       minSep = max boxW boxH + pad;
                       outwardBase = max (radii d) (minSep * (11 / 10))
                   in if key_expandable nodes isExpandable parentKey then
                        let baseAngle = atan2 ny nx;
                            spread = min (degToRad 140)
                                       (max (degToRad childSpreadDeg)
                                          ((real (length siblings) - 1) * (minSep / outwardBase)));
                            angle = baseAngle - spread / 2 + t * spread
                        in \<lparr>pos_x = pos_x parentPos + cos angle * outwardBase,
                            pos_y = pos_y parentPos + sin angle * outwardBase\<rparr>
                      else
                        let tangentGap = minSep
                        in \<lparr>pos_x = pos_x parentPos + nx * outwardBase + tx * offset * tangentGap,
                            pos_y = pos_y parentPos + ny * outwardBase + ty * offset * tangentGap\<rparr>)
          | None \<Rightarrow>
              let parentAngle = atan2 (pos_y parentPos) (pos_x parentPos);
                  angle = parentAngle - spread / 2 + t * spread
              in \<lparr>pos_x = pos_x parentPos + cos angle * radii d,
                  pos_y = pos_y parentPos + sin angle * radii d\<rparr>))"

definition place_child_advanced ::
  "NetworkNode list \<Rightarrow> (NetworkNode \<Rightarrow> bool) option \<Rightarrow> Level1Layout option \<Rightarrow> NodeBox option \<Rightarrow>
   levels \<Rightarrow> children \<Rightarrow> real \<Rightarrow> (nat \<Rightarrow> real) \<Rightarrow> nat \<Rightarrow> string \<Rightarrow> positions \<Rightarrow> positions" where
  "place_child_advanced nodes isExpandable level1Layout nodeBox lv cbp childSpreadDeg radii d k positions =
     (case map_of lv k of
        None \<Rightarrow> positions
      | Some info \<Rightarrow>
          (case parent info of
             None \<Rightarrow> positions
           | Some parentKey \<Rightarrow>
               if parentKey = [] then positions
               else js_set positions k
                      (child_position_advanced nodes isExpandable level1Layout nodeBox cbp
                         childSpreadDeg radii d k parentKey (parent_position positions parentKey))))"

definition place_depth_advanced ::
  "NetworkNode list \<Rightarrow> (NetworkNode \<Rightarrow> bool) option \<Rightarrow> Level1Layout option \<Rightarrow> NodeBox option \<Rightarrow>
   levels \<Rightarrow> children \<Rightarrow> real \<Rightarrow> nat \<Rightarrow> (nat \<Rightarrow> real) \<Rightarrow> (nat \<Rightarrow> string list) \<Rightarrow>
   nat \<Rightarrow> positions \<Rightarrow> positions" where
  "place_depth_advanced nodes isExpandable level1Layout nodeBox lv cbp childSpreadDeg maxDepth radii bd d positions =
     (if d > maxDepth then positions
      else fold (place_child_advanced nodes isExpandable level1Layout nodeBox lv cbp childSpreadDeg radii d)
             (bd d) positions)"

text \<open>
  \<open>computeRadialLayoutAdvanced\<close>. The parameter \<open>localeCompare\<close> is the comparator of the two
  sorts; the children lists are sorted after grouping.
\<close>

definition computeRadialLayoutAdvanced ::
  "(string \<Rightarrow> string \<Rightarrow> int) \<Rightarrow> NetworkNode list \<Rightarrow> NetworkEdge list \<Rightarrow> string \<Rightarrow> nat \<Rightarrow>
   (nat \<Rightarrow> real) \<Rightarrow> real \<Rightarrow> NodeBox option \<Rightarrow> Level1Layout option \<Rightarrow>
   (NetworkNode \<Rightarrow> bool) option \<Rightarrow> error + positions" where
  "computeRadialLayoutAdvanced localeCompare nodes edges centerKey maxDepth radii childSpreadDeg
       nodeBox level1Layout isExpandable =
     (case computeTreeLevels nodes edges centerKey maxDepth of
        Inl err \<Rightarrow> Inl err
      | Inr lv \<Rightarrow>
          (case byDepth lv nodes of
             Inl err \<Rightarrow> Inl err
           | Inr bd \<Rightarrow>
               let lvl1 = sort_cmp localeCompare (bd 1);
                   cbp = map (\<lambda>(p, arr). (p, sort_cmp localeCompare arr)) (childrenByParent lv)
               in Inr (fold (place_depth_advanced nodes isExpandable level1Layout nodeBox lv cbp
                               childSpreadDeg maxDepth radii bd)
                         [6, 7]
                         (place_level1 nodes isExpandable level1Layout radii lvl1
                            [(centerKey, origin)]))))"

text \<open>
  \<open>computeRadialLayoutAdaptive\<close>: the simple layout below \<open>rectRingsMinLvl1\<close> nodes of depth 1
  (80 when not given), the advanced layout otherwise.
\<close>

definition computeRadialLayoutAdaptive ::
  "(string \<Rightarrow> string \<Rightarrow> int) \<Rightarrow> NetworkNode list \<Rightarrow> NetworkEdge list \<Rightarrow> string \<Rightarrow> nat \<Rightarrow>
   (nat \<Rightarrow> real) \<Rightarrow> real \<Rightarrow> int option \<Rightarrow> Level1Layout option \<Rightarrow>
   (NetworkNode \<Rightarrow> bool) option \<Rightarrow> NodeBox option \<Rightarrow> error + positions" where
  "computeRadialLayoutAdaptive localeCompare nodes edges centerKey maxDepth radii childSpreadDeg
       rectRingsMinLvl1 level1Layout isExpandable nodeBox =
     (case computeTreeLevels nodes edges centerKey 1 of
        Inl err \<Rightarrow> Inl err
      | Inr lv \<Rightarrow>
          if int (length (filter (\<lambda>(k, info). depth info = 1) lv))
             < (case rectRingsMinLvl1 of None \<Rightarrow> 80 | Some v \<Rightarrow> v)
          then computeRadialLayout nodes edges centerKey maxDepth radii childSpreadDeg
          else computeRadialLayoutAdvanced localeCompare nodes edges centerKey maxDepth radii
                 childSpreadDeg nodeBox level1Layout isExpandable)"

text \<open>
  \<open>info?.parent\<close> is truthy: the key has a level entry whose parent is a non-empty key.
  The placement loops skip every other key.
\<close>

definition has_parent_key :: "levels \<Rightarrow> string \<Rightarrow> bool" where
  "has_parent_key lv k =
     (case map_of lv k of
        None \<Rightarrow> False
      | Some info \<Rightarrow> (case parent info of None \<Rightarrow> False | Some pk \<Rightarrow> pk \<noteq> []))"

section \<open>Expansion state machine\<close>

text \<open>
  The state is the expansion path (\<open>expansionPath\<close>, a list of keys). The connectivity map is a
  \<open>Map\<close> from node keys to \<open>Set\<close>s of keys; only lookups are made on it, so it is a partial
  function into sets. \<open>map.get(k)?.add(v)\<close> does nothing when \<open>k\<close> is not a node key.
\<close>

type_synonym connections = "string \<rightharpoonup> string set"

definition add_connection :: "NetworkEdge \<Rightarrow> connections \<Rightarrow> connections" where
  "add_connection e m =
     (let m1 = (case m (edge_from e) of
                  None \<Rightarrow> m
                | Some s \<Rightarrow> m(edge_from e \<mapsto> insert (edge_to e) s))
      in (case m1 (edge_to e) of
            None \<Rightarrow> m1
          | Some s \<Rightarrow> m1(edge_to e \<mapsto> insert (edge_from e) s)))"

definition nodeConnectionsMap :: "NetworkNode list \<Rightarrow> NetworkEdge list \<Rightarrow> connections" where
  "nodeConnectionsMap nodes edges =
     fold add_connection edges (fold (\<lambda>node m. m(key node \<mapsto> {})) nodes Map.empty)"

text \<open>
  \<open>nodeConnectionsMap.get(expansionPath[expansionPath.length - 1])\<close>: undefined for the
  empty path.
\<close>

definition focus_connections ::
  "NetworkNode list \<Rightarrow> NetworkEdge list \<Rightarrow> string list \<Rightarrow> string set option" where
  "focus_connections nodes edges expansionPath =
     (if expansionPath = [] then None
      else nodeConnectionsMap nodes edges (last expansionPath))"

definition visibleNodes ::
  "NetworkNode list \<Rightarrow> NetworkEdge list \<Rightarrow> string list \<Rightarrow> NetworkNode list" where
  "visibleNodes nodes edges expansionPath =
     (if length expansionPath = 0 then nodes
      else
        let visibleKeys = set expansionPath \<union>
              (case focus_connections nodes edges expansionPath of
                 None \<Rightarrow> {}
               | Some focusConnections \<Rightarrow> focusConnections)
        in filter (\<lambda>node. key node \<in> visibleKeys) nodes)"

definition visibleEdges ::
  "NetworkNode list \<Rightarrow> NetworkEdge list \<Rightarrow> string list \<Rightarrow> NetworkEdge list" where
  "visibleEdges nodes edges expansionPath =
     (let visibleKeys = set (map key (visibleNodes nodes edges expansionPath))
      in filter (\<lambda>edge. edge_from edge \<in> visibleKeys \<and> edge_to edge \<in> visibleKeys) edges)"

text \<open>\<open>currentFocusConnections?.has(n.key) ?? false\<close>\<close>

definition isDirectChild ::
  "NetworkNode list \<Rightarrow> NetworkEdge list \<Rightarrow> string list \<Rightarrow> string \<Rightarrow> bool" where
  "isDirectChild nodes edges expansionPath nkey =
     (case focus_connections nodes edges expansionPath of
        None \<Rightarrow> False
      | Some currentFocusConnections \<Rightarrow> nkey \<in> currentFocusConnections)"

text \<open>
  \<open>onExpandClick\<close> on the node of key \<open>nkey\<close>: the value is the expansion path after the click
  (the argument of \<open>setExpansionPath\<close>, or the path unchanged when it is not called).
\<close>

definition onExpandClick ::
  "NetworkNode list \<Rightarrow> NetworkEdge list \<Rightarrow> string \<Rightarrow> string \<Rightarrow> string list \<Rightarrow> string list" where
  "onExpandClick nodes edges centerKey nkey expansionPath =
     (if nkey \<noteq> centerKey then
        if isDirectChild nodes edges expansionPath nkey then expansionPath @ [nkey]
        else
          let nodeIndexInPath = indexOf expansionPath nkey
          in if nodeIndexInPath \<noteq> - 1 then take (nat (nodeIndexInPath + 1)) expansionPath
             else expansionPath
      else expansionPath)"

text \<open>
  The click handler of the hidden-children badge drawn on a path node: it cuts the path after
  the node, with no other test.
\<close>

definition onCollapsedBadgeClick :: "string \<Rightarrow> string list \<Rightarrow> string list" where
  "onCollapsedBadgeClick nkey expansionPath =
     (let nodeIndex = indexOf expansionPath nkey
      in if nodeIndex \<noteq> - 1 then take (nat (nodeIndex + 1)) expansionPath
         else expansionPath)"


section \<open>Numbers of the host language\<close>

text \<open>
  The layout functions above compute positions from finite radii and angles, over the reals.
  The functions below receive a position map from their caller (the position state, which
  also holds dragged and projected positions), so their coordinates and the grid size range
  over all numbers of JavaScript: the finite ones, \<open>NaN\<close>, \<open>Infinity\<close> and \<open>-Infinity\<close>.
  Arithmetic on finite numbers is exact here; the rounding and the overflow of doubles, and
  the sign of zero, are outside the model (a zero divisor is \<open>+0\<close>).
\<close>

datatype jsnum = NaN | NegInfinity | Finite real | PosInfinity

text \<open>\<open>a + b\<close>, \<open>-a\<close>, \<open>a - b\<close> and \<open>a / b\<close>.\<close>

definition js_add :: "jsnum \<Rightarrow> jsnum \<Rightarrow> jsnum" where
  "js_add a b =
     (case a of
        NaN \<Rightarrow> NaN
      | Finite x \<Rightarrow> (case b of Finite y \<Rightarrow> Finite (x + y) | NaN \<Rightarrow> NaN
                      | PosInfinity \<Rightarrow> PosInfinity | NegInfinity \<Rightarrow> NegInfinity)
      | PosInfinity \<Rightarrow> (case b of Finite y \<Rightarrow> PosInfinity | NaN \<Rightarrow> NaN
                         | PosInfinity \<Rightarrow> PosInfinity | NegInfinity \<Rightarrow> NaN)
      | NegInfinity \<Rightarrow> (case b of Finite y \<Rightarrow> NegInfinity | NaN \<Rightarrow> NaN
                         | PosInfinity \<Rightarrow> NaN | NegInfinity \<Rightarrow> NegInfinity))"

definition js_neg :: "jsnum \<Rightarrow> jsnum" where
  "js_neg a =
     (case a of NaN \<Rightarrow> NaN | Finite x \<Rightarrow> Finite (- x)
      | PosInfinity \<Rightarrow> NegInfinity | NegInfinity \<Rightarrow> PosInfinity)"

definition js_sub :: "jsnum \<Rightarrow> jsnum \<Rightarrow> jsnum" where
  "js_sub a b = js_add a (js_neg b)"

definition js_div :: "jsnum \<Rightarrow> jsnum \<Rightarrow> jsnum" where
  "js_div a b =
     (case a of
        NaN \<Rightarrow> NaN
      | Finite x \<Rightarrow>
          (case b of
             NaN \<Rightarrow> NaN
           | Finite y \<Rightarrow>
               if y = 0 then (if x = 0 then NaN else if x > 0 then PosInfinity else NegInfinity)
               else Finite (x / y)
           | PosInfinity \<Rightarrow> Finite 0
           | NegInfinity \<Rightarrow> Finite 0)
      | PosInfinity \<Rightarrow>
          (case b of Finite y \<Rightarrow> (if y \<ge> 0 then PosInfinity else NegInfinity)
           | NaN \<Rightarrow> NaN | PosInfinity \<Rightarrow> NaN | NegInfinity \<Rightarrow> NaN)
      | NegInfinity \<Rightarrow>
          (case b of Finite y \<Rightarrow> (if y \<ge> 0 then NegInfinity else PosInfinity)
           | NaN \<Rightarrow> NaN | PosInfinity \<Rightarrow> NaN | NegInfinity \<Rightarrow> NaN))"

definition Math_floor :: "jsnum \<Rightarrow> jsnum" where
  "Math_floor a =
     (case a of Finite x \<Rightarrow> Finite (of_int \<lfloor>x\<rfloor>) | NaN \<Rightarrow> NaN
      | PosInfinity \<Rightarrow> PosInfinity | NegInfinity \<Rightarrow> NegInfinity)"

text \<open>\<open>Math.min\<close> and \<open>Math.max\<close> of two numbers: \<open>NaN\<close> if one of them is \<open>NaN\<close>.\<close>

definition Math_min :: "jsnum \<Rightarrow> jsnum \<Rightarrow> jsnum" where
  "Math_min a b =
     (case a of
        NaN \<Rightarrow> NaN
      | NegInfinity \<Rightarrow> (case b of NaN \<Rightarrow> NaN | Finite y \<Rightarrow> NegInfinity
                         | PosInfinity \<Rightarrow> NegInfinity | NegInfinity \<Rightarrow> NegInfinity)
      | Finite x \<Rightarrow> (case b of NaN \<Rightarrow> NaN | Finite y \<Rightarrow> Finite (min x y)
                      | PosInfinity \<Rightarrow> Finite x | NegInfinity \<Rightarrow> NegInfinity)
      | PosInfinity \<Rightarrow> b)"

definition Math_max :: "jsnum \<Rightarrow> jsnum \<Rightarrow> jsnum" where
  "Math_max a b =
     (case a of
        NaN \<Rightarrow> NaN
      | PosInfinity \<Rightarrow> (case b of NaN \<Rightarrow> NaN | Finite y \<Rightarrow> PosInfinity
                         | PosInfinity \<Rightarrow> PosInfinity | NegInfinity \<Rightarrow> PosInfinity)
      | Finite x \<Rightarrow> (case b of NaN \<Rightarrow> NaN | Finite y \<Rightarrow> Finite (max x y)
                      | PosInfinity \<Rightarrow> PosInfinity | NegInfinity \<Rightarrow> Finite x)
      | NegInfinity \<Rightarrow> b)"

text \<open>\<open>Number.isFinite\<close>\<close>

definition isFinite :: "jsnum \<Rightarrow> bool" where
  "isFinite a =
     (case a of Finite r \<Rightarrow> True | NaN \<Rightarrow> False | NegInfinity \<Rightarrow> False | PosInfinity \<Rightarrow> False)"

text \<open>The value of a number that has passed \<open>Number.isFinite\<close>.\<close>

definition finite_value :: "jsnum \<Rightarrow> real" where
  "finite_value a =
     (case a of Finite r \<Rightarrow> r | NaN \<Rightarrow> 0 | NegInfinity \<Rightarrow> 0 | PosInfinity \<Rightarrow> 0)"


text \<open>
  The type \<open>NodePos\<close> of the source, \<open>{ x: number; y: number }\<close>, with all numbers as
  coordinates, and the position maps over it.
\<close>

record NumPos =
  num_x :: jsnum
  num_y :: jsnum

type_synonym num_positions = "(string, NumPos) js_map"

definition finite_pos :: "NumPos \<Rightarrow> bool" where
  "finite_pos p \<longleftrightarrow> isFinite (num_x p) \<and> isFinite (num_y p)"

section \<open>Viewport fit\<close>

definition NODE_BOX_WIDTH :: real where
  "NODE_BOX_WIDTH = 90"

definition NODE_BOX_HEIGHT :: real where
  "NODE_BOX_HEIGHT = 50"

definition ICON_TOP :: real where
  "ICON_TOP = 4"

definition ICON_SIZE :: real where
  "ICON_SIZE = 24"

definition iconCenterYOffset :: real where
  "iconCenterYOffset = - (NODE_BOX_HEIGHT / 2) + ICON_TOP + ICON_SIZE / 2"

record 'a Bounds =
  b_minX :: 'a
  b_minY :: 'a
  b_maxX :: 'a
  b_maxY :: 'a

text \<open>The running bounds start at \<open>Infinity\<close> and \<open>-Infinity\<close>.\<close>

definition no_bounds :: "jsnum Bounds" where
  "no_bounds = \<lparr>b_minX = PosInfinity, b_minY = PosInfinity, b_maxX = NegInfinity, b_maxY = NegInfinity\<rparr>"

definition grow :: "jsnum \<Rightarrow> jsnum \<Rightarrow> jsnum Bounds \<Rightarrow> jsnum Bounds" where
  "grow a b bs =
     \<lparr>b_minX = Math_min (b_minX bs) a, b_minY = Math_min (b_minY bs) b,
      b_maxX = Math_max (b_maxX bs) a, b_maxY = Math_max (b_maxY bs) b\<rparr>"

definition getNodeIconCenter :: "NumPos \<Rightarrow> NumPos" where
  "getNodeIconCenter p = \<lparr>num_x = num_x p, num_y = js_add (num_y p) (Finite iconCenterYOffset)\<rparr>"

text \<open>
  \<open>computeGraphBounds\<close>: the two loops over the positions, then the test. \<open>None\<close> is the
  result \<open>null\<close>; a result that has passed the test is given by its four finite values.
\<close>

definition computeGraphBounds :: "num_positions \<Rightarrow> real Bounds option" where
  "computeGraphBounds positions =
     (let b1 = fold (\<lambda>(k, p) bs.
                      grow (js_add (num_x p) (Finite (NODE_BOX_WIDTH / 2)))
                           (js_add (num_y p) (Finite (NODE_BOX_HEIGHT / 2)))
                        (grow (js_sub (num_x p) (Finite (NODE_BOX_WIDTH / 2)))
                              (js_sub (num_y p) (Finite (NODE_BOX_HEIGHT / 2))) bs))
                positions no_bounds;
          b2 = fold (\<lambda>(k, p) bs.
                      let c = getNodeIconCenter p in grow (num_x c) (num_y c) bs)
                positions b1
      in if \<not> isFinite (b_minX b2) \<or> \<not> isFinite (b_minY b2) \<or>
            \<not> isFinite (b_maxX b2) \<or> \<not> isFinite (b_maxY b2)
         then None
         else Some \<lparr>b_minX = finite_value (b_minX b2), b_minY = finite_value (b_minY b2),
                    b_maxX = finite_value (b_maxX b2), b_maxY = finite_value (b_maxY b2)\<rparr>)"

text \<open>
  The transforms of the zoom library (d3-zoom, not part of the repository), as its
  documentation defines them: \<open>translate\<close> and \<open>scale\<close> compose on the right.
\<close>

record ZoomTransform =
  t_k :: real
  t_x :: real
  t_y :: real

definition zoomIdentity :: ZoomTransform where
  "zoomIdentity = \<lparr>t_k = 1, t_x = 0, t_y = 0\<rparr>"

definition translate :: "ZoomTransform \<Rightarrow> real \<Rightarrow> real \<Rightarrow> ZoomTransform" where
  "translate t a b = \<lparr>t_k = t_k t, t_x = t_x t + t_k t * a, t_y = t_y t + t_k t * b\<rparr>"

definition scale :: "ZoomTransform \<Rightarrow> real \<Rightarrow> ZoomTransform" where
  "scale t k = \<lparr>t_k = t_k t * k, t_x = t_x t, t_y = t_y t\<rparr>"

text \<open>
  \<open>zoomToFit\<close>: the value is the transform handed to \<open>applyTransform\<close>, or \<open>None\<close> when the
  function returns without applying one. The measured viewport and the zoom limits are
  finite.
\<close>

definition zoomToFit ::
  "num_positions \<Rightarrow> real \<Rightarrow> real \<Rightarrow> real \<Rightarrow> real \<Rightarrow> bool \<Rightarrow> ZoomTransform option" where
  "zoomToFit posMap measuredWidth measuredHeight minZoom maxZoom didInitialFit =
     (if length posMap = 0 then None
      else if measuredWidth = 0 \<or> measuredHeight = 0 then None
      else
        (case computeGraphBounds posMap of
           None \<Rightarrow> None
         | Some b \<Rightarrow>
             let padding = 5;
                 minX = b_minX b - padding;
                 minY = b_minY b - padding;
                 maxX = b_maxX b + padding;
                 maxY = b_maxY b + padding;
                 contentW = max 1 (maxX - minX);
                 contentH = max 1 (maxY - minY);
                 rawK = min (measuredWidth / contentW) (measuredHeight / contentH);
                 k = clamp rawK minZoom (if didInitialFit then maxZoom else 1);
                 cx = (minX + maxX) / 2;
                 cy = (minY + maxY) / 2
             in Some (translate
                        (scale (translate zoomIdentity (measuredWidth / 2) (measuredHeight / 2)) k)
                        (- cx) (- cy))))"

section \<open>Cluster aggregator\<close>

record ClusterGroup =
  cg_key :: string
  members :: "string list"
  bounds :: "jsnum Bounds"
  center :: NumPos

record ClusterResult =
  groups :: "ClusterGroup list"
  nodeToGroup :: "(string, string) js_map"
  groupPositions :: "(string, NumPos) js_map"
  groupBounds :: "(string, jsnum Bounds) js_map"

text \<open>
  The cell coordinates in the template string \<open>G:cx,cy\<close> are printed by the number-to-string
  conversion of the language. A cell coordinate is a value of \<open>Math.floor\<close>: an integer, \<open>NaN\<close>
  or infinite. An integer below \<open>10^21\<close> is printed in decimal; from \<open>10^21\<close> on the form is
  \<open>d.ddde+n\<close>, with the digits up to the last one that is not zero (all arithmetic being
  exact here, these are the digits of the number itself).
\<close>

fun show_nat :: "nat \<Rightarrow> string" where
  "show_nat n =
     (if n < 10 then [''0123456789'' ! n]
      else show_nat (n div 10) @ [''0123456789'' ! (n mod 10)])"

declare show_nat.simps [simp del]

definition strip_zeros :: "string \<Rightarrow> string" where
  "strip_zeros s = rev (dropWhile (\<lambda>c. c = CHR ''0'') (rev s))"

definition mantissa :: "string \<Rightarrow> string" where
  "mantissa s =
     (case s of [] \<Rightarrow> [] | d # ds \<Rightarrow> if ds = [] then [d] else d # CHR ''.'' # ds)"

definition show_exponential :: "nat \<Rightarrow> string" where
  "show_exponential n =
     mantissa (strip_zeros (show_nat n)) @ ''e+'' @ show_nat (length (show_nat n) - 1)"

definition show_magnitude :: "nat \<Rightarrow> string" where
  "show_magnitude n = (if n < 10 ^ 21 then show_nat n else show_exponential n)"

definition show_int :: "int \<Rightarrow> string" where
  "show_int i = (if i < 0 then CHR ''-'' # show_magnitude (nat (- i)) else show_magnitude (nat i))"

definition number_string :: "jsnum \<Rightarrow> string" where
  "number_string a =
     (case a of
        NaN \<Rightarrow> ''NaN''
      | PosInfinity \<Rightarrow> ''Infinity''
      | NegInfinity \<Rightarrow> ''-Infinity''
      | Finite r \<Rightarrow> show_int \<lfloor>r\<rfloor>)"

definition group_key :: "jsnum \<Rightarrow> jsnum \<Rightarrow> string" where
  "group_key cx cy = ''G:'' @ number_string cx @ '','' @ number_string cy"

definition padX :: real where
  "padX = NODE_BOX_WIDTH / 3"

definition padY :: real where
  "padY = NODE_BOX_HEIGHT / 3"

type_synonym groups_map = "(string, ClusterGroup) js_map"

text \<open>
  The body of the loop over the nodes. The group object is created on first use and
  updated in place, so its entry keeps its place in the map.
\<close>

definition cluster_node ::
  "jsnum \<Rightarrow> num_positions \<Rightarrow> NetworkNode \<Rightarrow> groups_map \<times> (string, string) js_map \<Rightarrow>
   groups_map \<times> (string, string) js_map" where
  "cluster_node gridSize positions n st =
     (case st of (groupsMap, n2g) \<Rightarrow>
        (case map_of positions (key n) of
           None \<Rightarrow> (groupsMap, n2g)
         | Some p \<Rightarrow>
             let cx = Math_floor (js_div (num_x p) gridSize);
                 cy = Math_floor (js_div (num_y p) gridSize);
                 gKey = group_key cx cy;
                 g = (case map_of groupsMap gKey of
                        None \<Rightarrow> \<lparr>cg_key = gKey, members = [], bounds = no_bounds,
                                  center = \<lparr>num_x = Finite 0, num_y = Finite 0\<rparr>\<rparr>
                      | Some g \<Rightarrow> g)
             in (js_set groupsMap gKey
                   (g\<lparr>members := members g @ [key n],
                      bounds :=
                        \<lparr>b_minX = Math_min (b_minX (bounds g)) (js_sub (num_x p) (Finite padX)),
                         b_minY = Math_min (b_minY (bounds g)) (js_sub (num_y p) (Finite padY)),
                         b_maxX = Math_max (b_maxX (bounds g)) (js_add (num_x p) (Finite padX)),
                         b_maxY = Math_max (b_maxY (bounds g)) (js_add (num_y p) (Finite padY))\<rparr>\<rparr>),
                 js_set n2g (key n) gKey)))"

text \<open>
  The body of the loop that finalizes the centers: a group with a bound that is not finite
  is passed over.
\<close>

definition finalize_group ::
  "ClusterGroup \<Rightarrow>
   ClusterGroup list \<times> (string, NumPos) js_map \<times> (string, jsnum Bounds) js_map \<Rightarrow>
   ClusterGroup list \<times> (string, NumPos) js_map \<times> (string, jsnum Bounds) js_map" where
  "finalize_group g st =
     (case st of (gs, gPositions, gBounds) \<Rightarrow>
        if \<not> isFinite (b_minX (bounds g)) \<or> \<not> isFinite (b_minY (bounds g)) \<or>
           \<not> isFinite (b_maxX (bounds g)) \<or> \<not> isFinite (b_maxY (bounds g))
        then (gs, gPositions, gBounds)
        else
          let cx = js_div (js_add (b_minX (bounds g)) (b_maxX (bounds g))) (Finite 2);
              cy = js_div (js_add (b_minY (bounds g)) (b_maxY (bounds g))) (Finite 2);
              g' = g\<lparr>center := \<lparr>num_x = cx, num_y = cy\<rparr>\<rparr>
          in (gs @ [g'], js_set gPositions (cg_key g') (center g'), js_set gBounds (cg_key g') (bounds g')))"

text \<open>
  \<open>computeGridClusters\<close>; the parameter \<open>localeCompare\<close> is the comparator of the final sort
  by group key.
\<close>

definition computeGridClusters ::
  "(string \<Rightarrow> string \<Rightarrow> int) \<Rightarrow> NetworkNode list \<Rightarrow> num_positions \<Rightarrow> jsnum \<Rightarrow> ClusterResult" where
  "computeGridClusters localeCompare nodes positions gridSize =
     (case fold (cluster_node gridSize positions) nodes ([], []) of
        (groupsMap, n2g) \<Rightarrow>
          (case fold finalize_group (map snd groupsMap) ([], [], []) of
             (gs, gPositions, gBounds) \<Rightarrow>
               \<lparr>groups = sort_cmp (\<lambda>a b. localeCompare (cg_key a) (cg_key b)) gs,
                nodeToGroup = n2g,
                groupPositions = gPositions,
                groupBounds = gBounds\<rparr>))"

subsection \<open>Edge aggregation\<close>

record AggregatedEdge =
  agg_from :: string
  agg_to :: string
  agg_count :: nat

text \<open>
  The size map that the component builds for \<open>computeAggregatedEdges\<close>:
  \<open>cluster.groups.forEach(g => m.set(g.key, g.members.length))\<close>.
\<close>

definition groupSizes_of :: "ClusterGroup list \<Rightarrow> (string, int) js_map" where
  "groupSizes_of gs = fold (\<lambda>g m. js_set m (cg_key g) (int (length (members g)))) gs []"

text \<open>\<open>groupSizes.get(g) ?? 1\<close>\<close>

definition group_size :: "(string, int) js_map \<Rightarrow> string \<Rightarrow> int" where
  "group_size groupSizes g = (case map_of groupSizes g of None \<Rightarrow> 1 | Some sz \<Rightarrow> sz)"

text \<open>
  The body of the loop over the edges. \<open>!gFrom || !gTo\<close> holds for an endpoint with no
  group and for the empty string as group key.
\<close>

definition aggregate_edge ::
  "(string, string) js_map \<Rightarrow> (string, int) js_map \<Rightarrow> NetworkEdge \<Rightarrow>
   (string, (string, nat) js_map) js_map \<Rightarrow> (string, (string, nat) js_map) js_map" where
  "aggregate_edge n2g groupSizes e m =
     (case map_of n2g (edge_from e) of
        None \<Rightarrow> m
      | Some gFrom \<Rightarrow>
          (case map_of n2g (edge_to e) of
             None \<Rightarrow> m
           | Some gTo \<Rightarrow>
               if gFrom = [] \<or> gTo = [] then m
               else if gFrom = gTo then m
               else if group_size groupSizes gFrom = 1 \<and> group_size groupSizes gTo = 1 then m
               else
                 let inner = (case map_of m gFrom of None \<Rightarrow> [] | Some i \<Rightarrow> i)
                 in js_set m gFrom
                      (js_set inner gTo ((case map_of inner gTo of None \<Rightarrow> 0 | Some c \<Rightarrow> c) + 1))))"

definition computeAggregatedEdges ::
  "NetworkEdge list \<Rightarrow> (string, string) js_map \<Rightarrow> (string, int) js_map \<Rightarrow> AggregatedEdge list" where
  "computeAggregatedEdges edges n2g groupSizes =
     concat (map (\<lambda>(gFrom, inner).
                    map (\<lambda>(gTo, c). \<lparr>agg_from = gFrom, agg_to = gTo, agg_count = c\<rparr>) inner)
               (fold (aggregate_edge n2g groupSizes) edges []))"
section \<open>Invariants and measures used in the proofs\<close>

text \<open>The keys that occur in the neighbour lists: the universe of the termination measure.\<close>

definition adj_universe :: "adjacency \<Rightarrow> string set" where
  "adj_universe adj = (\<Union>l \<in> snd ` set adj. set l)"

text \<open>The loop invariant of the breadth-first search.\<close>

definition levels_inv :: "string \<Rightarrow> levels \<Rightarrow> bool" where
  "levels_inv c res \<longleftrightarrow>
     map_of res c = Some \<lparr>depth = 0, parent = None\<rparr> \<and>
     (\<forall>k info. map_of res k = Some info \<and> k \<noteq> c \<longrightarrow>
        (\<exists>p pinfo. parent info = Some p \<and> map_of res p = Some pinfo \<and>
           depth info = depth pinfo + 1))"

definition levels_bounded :: "string set \<Rightarrow> nat \<Rightarrow> levels \<Rightarrow> bool" where
  "levels_bounded N md res \<longleftrightarrow>
     fst ` set res \<subseteq> N \<and> (\<forall>k info. map_of res k = Some info \<longrightarrow> depth info \<le> md)"

text \<open>The aggregation loop: the pairs that are counted, and the count a map holds for a pair.\<close>

definition counted_pair :: "(string, int) js_map \<Rightarrow> string \<Rightarrow> string \<Rightarrow> bool" where
  "counted_pair groupSizes gf gt \<longleftrightarrow>
     gf \<noteq> [] \<and> gt \<noteq> [] \<and> gf \<noteq> gt \<and>
     \<not> (group_size groupSizes gf = 1 \<and> group_size groupSizes gt = 1)"

definition hits :: "(string, string) js_map \<Rightarrow> NetworkEdge list \<Rightarrow> string \<Rightarrow> string \<Rightarrow> nat" where
  "hits n2g es gf gt =
     length (filter (\<lambda>e. map_of n2g (edge_from e) = Some gf \<and> map_of n2g (edge_to e) = Some gt) es)"

definition count_of :: "(string, (string, nat) js_map) js_map \<Rightarrow> string \<Rightarrow> string \<Rightarrow> nat" where
  "count_of m gf gt =
     (case map_of m gf of
        None \<Rightarrow> 0
      | Some inner \<Rightarrow> (case map_of inner gt of None \<Rightarrow> 0 | Some c \<Rightarrow> c))"

definition agg_inv :: "(string, (string, nat) js_map) js_map \<Rightarrow> bool" where
  "agg_inv m \<longleftrightarrow>
     distinct (map fst m) \<and>
     (\<forall>gf inner. map_of m gf = Some inner \<longrightarrow>
        distinct (map fst inner) \<and> (\<forall>gt c. map_of inner gt = Some c \<longrightarrow> c > 0))"

text \<open>
  Running bounds: all four finite, or with a value that no later step can make finite (a
  \<open>NaN\<close>, a minimum at \<open>-Infinity\<close>, a maximum at \<open>Infinity\<close>).
\<close>

definition all_finite :: "jsnum Bounds \<Rightarrow> bool" where
  "all_finite bs \<longleftrightarrow>
     isFinite (b_minX bs) \<and> isFinite (b_minY bs) \<and> isFinite (b_maxX bs) \<and> isFinite (b_maxY bs)"

definition doomed :: "jsnum Bounds \<Rightarrow> bool" where
  "doomed bs \<longleftrightarrow>
     b_minX bs = NaN \<or> b_minX bs = NegInfinity \<or> b_minY bs = NaN \<or> b_minY bs = NegInfinity \<or>
     b_maxX bs = NaN \<or> b_maxX bs = PosInfinity \<or> b_maxY bs = NaN \<or> b_maxY bs = PosInfinity"

text \<open>
  The clustering loop: the key of the cell of a point, the padded box of a member list, and
  the invariant of the group map.
\<close>

definition cell_key :: "jsnum \<Rightarrow> NumPos \<Rightarrow> string" where
  "cell_key gridSize p =
     group_key (Math_floor (js_div (num_x p) gridSize)) (Math_floor (js_div (num_y p) gridSize))"

definition member_pos :: "num_positions \<Rightarrow> string \<Rightarrow> NumPos" where
  "member_pos positions m = the (map_of positions m)"

definition members_finite :: "num_positions \<Rightarrow> string list \<Rightarrow> bool" where
  "members_finite positions ms \<longleftrightarrow> (\<forall>m \<in> set ms. finite_pos (member_pos positions m))"

definition padded_box :: "num_positions \<Rightarrow> string list \<Rightarrow> jsnum Bounds" where
  "padded_box positions ms =
     \<lparr>b_minX = Finite (Min ((\<lambda>m. finite_value (num_x (member_pos positions m)) - padX) ` set ms)),
      b_minY = Finite (Min ((\<lambda>m. finite_value (num_y (member_pos positions m)) - padY) ` set ms)),
      b_maxX = Finite (Max ((\<lambda>m. finite_value (num_x (member_pos positions m)) + padX) ` set ms)),
      b_maxY = Finite (Max ((\<lambda>m. finite_value (num_y (member_pos positions m)) + padY) ` set ms))\<rparr>"

text \<open>The bounds of a group after one more point, as the loop body computes them.\<close>

definition add_box :: "NumPos \<Rightarrow> jsnum Bounds \<Rightarrow> jsnum Bounds" where
  "add_box p bs =
     \<lparr>b_minX = Math_min (b_minX bs) (js_sub (num_x p) (Finite padX)),
      b_minY = Math_min (b_minY bs) (js_sub (num_y p) (Finite padY)),
      b_maxX = Math_max (b_maxX bs) (js_add (num_x p) (Finite padX)),
      b_maxY = Math_max (b_maxY bs) (js_add (num_y p) (Finite padY))\<rparr>"

definition group_ok :: "jsnum \<Rightarrow> num_positions \<Rightarrow> string \<Rightarrow> ClusterGroup \<Rightarrow> bool" where
  "group_ok gridSize positions k g \<longleftrightarrow>
     cg_key g = k \<and> members g \<noteq> [] \<and>
     (\<forall>m \<in> set (members g). \<exists>p. map_of positions m = Some p \<and> cell_key gridSize p = k) \<and>
     (if members_finite positions (members g)
      then bounds g = padded_box positions (members g)
      else doomed (bounds g))"

definition cluster_inv :: "jsnum \<Rightarrow> num_positions \<Rightarrow> groups_map \<Rightarrow> bool" where
  "cluster_inv gridSize positions gm \<longleftrightarrow>
     distinct (map fst gm) \<and> (\<forall>k g. map_of gm k = Some g \<longrightarrow> group_ok gridSize positions k g)"

text \<open>The group map after the loop over the nodes.\<close>

definition groups_map_of :: "jsnum \<Rightarrow> num_positions \<Rightarrow> NetworkNode list \<Rightarrow> groups_map" where
  "groups_map_of gridSize positions nodes = fst (fold (cluster_node gridSize positions) nodes ([], []))"




definition with_center :: "ClusterGroup \<Rightarrow> ClusterGroup" where
  "with_center g =
     g\<lparr>center :=
         \<lparr>num_x = js_div (js_add (b_minX (bounds g)) (b_maxX (bounds g))) (Finite 2),
          num_y = js_div (js_add (b_minY (bounds g)) (b_maxY (bounds g))) (Finite 2)\<rparr>\<rparr>"




definition digit :: "char \<Rightarrow> bool" where
  "digit c \<longleftrightarrow> 48 \<le> (of_char c :: nat) \<and> (of_char c :: nat) < 58"

definition numeral_char :: "char \<Rightarrow> bool" where
  "numeral_char c \<longleftrightarrow> digit c \<or> c = CHR ''.'' \<or> c = CHR ''e'' \<or> c = CHR ''+''"

section \<open>Example graphs\<close>

text \<open>Concrete inputs on which the theorems below are instantiated.\<close>

definition mk_node :: "string \<Rightarrow> NetworkNode" where
  "mk_node k = \<lparr>key = k, node_text = k, icon = [], expandable = None\<rparr>"

definition mk_edge :: "string \<Rightarrow> string \<Rightarrow> NetworkEdge" where
  "mk_edge a b = \<lparr>edge_from = a, edge_to = b\<rparr>"

text \<open>The scenario of the specification: \<open>CENTER\<rightarrow>A\<close>, \<open>CENTER\<rightarrow>B\<close>, \<open>A\<rightarrow>C\<close>.\<close>

definition scenario_nodes :: "NetworkNode list" where
  "scenario_nodes = [mk_node ''CENTER'', mk_node ''A'', mk_node ''B'', mk_node ''C'']"

definition scenario_edges :: "NetworkEdge list" where
  "scenario_edges = [mk_edge ''CENTER'' ''A'', mk_edge ''CENTER'' ''B'', mk_edge ''A'' ''C'']"

text \<open>A path \<open>N0 - N1 - ... \<close> of the given keys.\<close>

fun chain_edges :: "string list \<Rightarrow> NetworkEdge list" where
  "chain_edges (a # b # ks) = mk_edge a b # chain_edges (b # ks)"
| "chain_edges ks = []"

definition chain5 :: "string list" where
  "chain5 = [''N0'', ''N1'', ''N2'', ''N3'', ''N4'']"

definition chain7 :: "string list" where
  "chain7 = [''N0'', ''N1'', ''N2'', ''N3'', ''N4'', ''N5'', ''N6'']"

text \<open>A comparator by character codes, and a constant radius table, for the examples.\<close>

fun code_compare :: "string \<Rightarrow> string \<Rightarrow> int" where
  "code_compare [] [] = 0"
| "code_compare [] (b # bs) = - 1"
| "code_compare (a # as) [] = 1"
| "code_compare (a # as) (b # bs) =
     (if (of_char a :: nat) < of_char b then - 1
      else if (of_char b :: nat) < of_char a then 1
      else code_compare as bs)"

definition radii100 :: "nat \<Rightarrow> real" where
  "radii100 d = 100"

text \<open>The entry of a key in a result that may be an error.\<close>

definition level_of :: "error + levels \<Rightarrow> string \<Rightarrow> InternalNodeInfo option" where
  "level_of r k = (case r of Inl err \<Rightarrow> None | Inr lv \<Rightarrow> map_of lv k)"

definition position_of :: "error + positions \<Rightarrow> string \<Rightarrow> NodePos option" where
  "position_of r k = (case r of Inl err \<Rightarrow> None | Inr ps \<Rightarrow> map_of ps k)"

text \<open>A star: the focus \<open>HUB\<close> with the four neighbours \<open>A\<close>, \<open>B\<close>, \<open>C\<close>, \<open>D\<close>.\<close>

definition star_nodes :: "NetworkNode list" where
  "star_nodes = map mk_node [''HUB'', ''A'', ''B'', ''C'', ''D'']"

definition star_edges :: "NetworkEdge list" where
  "star_edges = map (mk_edge ''HUB'') [''A'', ''B'', ''C'', ''D'']"

definition rings200 :: Level1Layout where
  "rings200 = \<lparr>l1_type = rectRings, l1_halfW = Some 200, l1_halfH = Some 200,
               l1_outerRatio = None, l1_innerScale = None\<rparr>"

definition always_expandable :: "NetworkNode \<Rightarrow> bool" where
  "always_expandable n = True"

text \<open>
  Position maps: three nodes of one grid cell; four nodes of which one has no position; a
  node at a \<open>NaN\<close> coordinate, alone and beside nodes at finite positions.
\<close>

definition pos_at :: "real \<Rightarrow> real \<Rightarrow> NumPos" where
  "pos_at a b = \<lparr>num_x = Finite a, num_y = Finite b\<rparr>"

definition cell_positions :: num_positions where
  "cell_positions = [(''a'', pos_at 0 0), (''b'', pos_at 0 0), (''c'', pos_at 90 0)]"

definition spread_positions :: num_positions where
  "spread_positions = [(''a'', pos_at 0 0), (''b'', pos_at 10 10), (''c'', pos_at 200 0)]"

definition nan_positions :: num_positions where
  "nan_positions = [(''a'', \<lparr>num_x = NaN, num_y = Finite 0\<rparr>)]"

definition mixed_positions :: num_positions where
  "mixed_positions =
     [(''a'', pos_at 0 0), (''b'', \<lparr>num_x = NaN, num_y = Finite 0\<rparr>), (''c'', pos_at 200 0),
      (''d'', \<lparr>num_x = Finite 0, num_y = PosInfinity\<rparr>)]"
lemma map_fst_js_set:
  "map fst (js_set m k v) = (if k \<in> fst ` set m then map fst m else map fst m @ [k])"
  by (induction m) (auto simp: rev_image_eqI)

lemma js_set_keys: "fst ` set (js_set m k v) = insert k (fst ` set m)"
proof -
  have "set (map fst (js_set m k v)) = insert k (fst ` set m)"
    unfolding map_fst_js_set by auto
  then show ?thesis by simp
qed

lemma map_of_js_set: "map_of (js_set m k v) = (map_of m)(k \<mapsto> v)"
  by (induction m) auto

lemma js_has_iff: "js_has m k \<longleftrightarrow> k \<in> fst ` set m"
  by (simp add: js_has_def map_of_eq_None_iff)

lemma visit_keys:
  "fst ` set (fst (visit cur ci nb (res, q))) = insert nb (fst ` set res)"
  by (auto simp: visit_def js_set_keys js_has_iff)

lemma fold_visit_keys:
  "fst ` set (fst (fold (visit cur ci) nbs s)) = set nbs \<union> fst ` set (fst s)"
proof (induction nbs arbitrary: s)
  case Nil
  show ?case by simp
next
  case (Cons nb nbs)
  obtain res q where s: "s = (res, q)" by (cases s)
  show ?case
    using Cons.IH [of "visit cur ci nb s"] visit_keys [of cur ci nb res q]
    by (simp add: s)
qed

lemma visit_unchanged: "js_has res nb \<Longrightarrow> visit cur ci nb (res, q) = (res, q)"
  by (simp add: visit_def)

lemma fold_visit_unchanged:
  "set nbs \<subseteq> fst ` set res \<Longrightarrow> fold (visit cur ci) nbs (res, q) = (res, q)"
  by (induction nbs) (auto simp: visit_unchanged js_has_iff)

lemma fold_visit_queue:
  "set nbs \<subseteq> fst ` set res \<Longrightarrow> snd (fold (visit cur ci) nbs (res, q)) = q"
  by (simp add: fold_visit_unchanged)

lemma finite_adj_universe: "finite (adj_universe adj)"
  by (simp add: adj_universe_def)

lemma neighbours_universe: "set (neighbours adj cur) \<subseteq> adj_universe adj"
proof
  fix nb assume "nb \<in> set (neighbours adj cur)"
  then obtain l where l: "map_of adj cur = Some l" "nb \<in> set l"
    by (cases "map_of adj cur") (auto simp: neighbours_def)
  from l(1) have "(cur, l) \<in> set adj" by (rule map_of_SomeD)
  then have "l \<in> snd ` set adj" by force
  with l(2) show "nb \<in> adj_universe adj" by (auto simp: adj_universe_def)
qed

lemma expand_keys:
  "fst ` set (fst (expand adj cur ci (res, q))) = set (neighbours adj cur) \<union> fst ` set res"
  by (simp add: expand_def fold_visit_keys)

lemma expand_unchanged:
  "set (neighbours adj cur) \<subseteq> fst ` set res \<Longrightarrow> expand adj cur ci (res, q) = (res, q)"
  by (simp add: expand_def fold_visit_unchanged)

lemma expand_card:
  assumes "\<not> set (neighbours adj cur) \<subseteq> fst ` set res"
  shows "card (adj_universe adj - fst ` set (fst (expand adj cur ci (res, q))))
         < card (adj_universe adj - fst ` set res)"
proof -
  from assms obtain nb where nb: "nb \<in> set (neighbours adj cur)" "nb \<notin> fst ` set res"
    by blast
  have "nb \<in> adj_universe adj"
    using nb(1) neighbours_universe [of adj cur] by (rule subsetD [rotated])
  then have "adj_universe adj - (set (neighbours adj cur) \<union> fst ` set res)
             \<subset> adj_universe adj - fst ` set res"
    using nb by blast
  then show ?thesis
    unfolding expand_keys
    by (rule psubset_card_mono [rotated]) (simp add: finite_adj_universe)
qed

lemma expand_decreases:
  "((adj, maxDepth, fst (expand adj cur ci (res, q)), snd (expand adj cur ci (res, q))),
    (adj, maxDepth, res, cur # q))
   \<in> (\<lambda>(adj, md, res, q). card (adj_universe adj - fst ` set res)) <*mlex*>
      measure (\<lambda>(adj, md, res, q). length q)"
proof (cases "set (neighbours adj cur) \<subseteq> fst ` set res")
  case True
  then show ?thesis by (simp add: expand_unchanged mlex_iff)
next
  case False
  then show ?thesis using expand_card [OF False, of ci q] by (simp add: mlex_iff split_beta)
qed

termination bfs
  apply (relation "(\<lambda>(adj, md, res, q). card (adj_universe adj - fst ` set res)) <*mlex*>
                 measure (\<lambda>(adj, md, res, q). length q)")
    apply (simp add: wf_mlex)
   apply (simp add: mlex_iff)
  apply (rule expand_decreases)
  done

section \<open>Properties of the level resolver\<close>

lemma adj_push_ok:
  "k \<in> fst ` set adj \<Longrightarrow> \<exists>adj'. adj_push adj k v = Inr adj' \<and> fst ` set adj' = fst ` set adj"
proof -
  assume k: "k \<in> fst ` set adj"
  then obtain l where "map_of adj k = Some l"
    by (metis js_has_def js_has_iff not_Some_eq)
  then show ?thesis using k by (auto simp: adj_push_def js_set_keys)
qed

lemma add_edge_ok:
  assumes "fst ` set adj = N"
  shows "\<exists>adj'. add_edge N e adj = Inr adj' \<and> fst ` set adj' = N"
proof (cases "edge_from e \<notin> N \<or> edge_to e \<notin> N")
  case True
  then show ?thesis using assms by (auto simp: add_edge_def)
next
  case False
  then have f: "edge_from e \<in> fst ` set adj" and t: "edge_to e \<in> fst ` set adj"
    using assms by auto
  from adj_push_ok [OF f] obtain adj1 where
    a1: "adj_push adj (edge_from e) (edge_to e) = Inr adj1" "fst ` set adj1 = fst ` set adj"
    by blast
  from t a1(2) have "edge_to e \<in> fst ` set adj1" by simp
  from adj_push_ok [OF this] obtain adj2 where
    a2: "adj_push adj1 (edge_to e) (edge_from e) = Inr adj2" "fst ` set adj2 = fst ` set adj1"
    by blast
  show ?thesis using False a1 a2 assms by (simp add: add_edge_def)
qed

lemma foldE_add_edge_ok:
  "fst ` set adj = N \<Longrightarrow> \<exists>adj'. foldE (add_edge N) edges adj = Inr adj' \<and> fst ` set adj' = N"
proof (induction edges arbitrary: adj)
  case Nil
  then show ?case by simp
next
  case (Cons e edges)
  from add_edge_ok [OF Cons.prems] obtain adj1 where
    a1: "add_edge N e adj = Inr adj1" "fst ` set adj1 = N" by blast
  from Cons.IH [OF a1(2)] show ?case using a1(1) by simp
qed

lemma init_adj_keys:
  "fst ` set (fold (\<lambda>n adj. js_set adj (key n) []) nodes adj) = key ` set nodes \<union> fst ` set adj"
  by (induction nodes arbitrary: adj) (auto simp: js_set_keys)

lemma build_adj_ok: "\<exists>adj. build_adj nodes edges = Inr adj \<and> fst ` set adj = key ` set nodes"
proof -
  have "fst ` set (fold (\<lambda>n adj. js_set adj (key n) []) nodes []) = set (map key nodes)"
    by (simp add: init_adj_keys)
  from foldE_add_edge_ok [OF this] show ?thesis by (simp add: build_adj_def)
qed

lemma visit_inv:
  assumes "levels_inv c res" "map_of res cur = Some ci" "set q \<subseteq> fst ` set res"
  shows "levels_inv c (fst (visit cur ci nb (res, q))) \<and>
         map_of (fst (visit cur ci nb (res, q))) cur = Some ci \<and>
         set (snd (visit cur ci nb (res, q))) \<subseteq> fst ` set (fst (visit cur ci nb (res, q)))"
proof (cases "js_has res nb")
  case True
  then show ?thesis using assms by (simp add: visit_def)
next
  case False
  then have nb: "map_of res nb = None" by (simp add: js_has_def)
  let ?new = "\<lparr>depth = depth ci + 1, parent = Some cur\<rparr>"
  have v: "visit cur ci nb (res, q) = (js_set res nb ?new, q @ [nb])"
    using False by (simp add: visit_def)
  have ne: "nb \<noteq> c" "nb \<noteq> cur"
    using nb assms(1,2) by (auto simp: levels_inv_def)
  have "levels_inv c (js_set res nb ?new)"
    unfolding levels_inv_def map_of_js_set
  proof (intro conjI allI impI)
    show "((map_of res)(nb \<mapsto> ?new)) c = Some \<lparr>depth = 0, parent = None\<rparr>"
      using ne(1) assms(1) by (simp add: levels_inv_def)
  next
    fix k info
    assume h: "((map_of res)(nb \<mapsto> ?new)) k = Some info \<and> k \<noteq> c"
    show "\<exists>p pinfo. parent info = Some p \<and> ((map_of res)(nb \<mapsto> ?new)) p = Some pinfo \<and>
            depth info = depth pinfo + 1"
    proof (cases "k = nb")
      case True
      then have "info = ?new" using h by simp
      then show ?thesis using assms(2) ne(2) by simp
    next
      case False
      then have "map_of res k = Some info" using h by simp
      with assms(1) h obtain p pinfo where
        p: "parent info = Some p" "map_of res p = Some pinfo" "depth info = depth pinfo + 1"
        unfolding levels_inv_def by blast
      then have "p \<noteq> nb" using nb by auto
      then show ?thesis using p by simp
    qed
  qed
  moreover have "map_of (js_set res nb ?new) cur = Some ci"
    using ne(2) assms(2) by (simp add: map_of_js_set)
  moreover have "set (q @ [nb]) \<subseteq> fst ` set (js_set res nb ?new)"
    using assms(3) by (auto simp: js_set_keys)
  ultimately show ?thesis by (simp add: v)
qed

lemma fold_visit_inv:
  "levels_inv c (fst s) \<Longrightarrow> map_of (fst s) cur = Some ci \<Longrightarrow> set (snd s) \<subseteq> fst ` set (fst s) \<Longrightarrow>
   levels_inv c (fst (fold (visit cur ci) nbs s)) \<and>
   set (snd (fold (visit cur ci) nbs s)) \<subseteq> fst ` set (fst (fold (visit cur ci) nbs s))"
proof (induction nbs arbitrary: s)
  case Nil
  then show ?case by simp
next
  case (Cons nb nbs)
  obtain res q where s: "s = (res, q)" by (cases s)
  from visit_inv [of c res cur ci q nb] Cons.prems
  have "levels_inv c (fst (visit cur ci nb s))"
       "map_of (fst (visit cur ci nb s)) cur = Some ci"
       "set (snd (visit cur ci nb s)) \<subseteq> fst ` set (fst (visit cur ci nb s))"
    by (simp_all add: s)
  from Cons.IH [OF this] show ?case by simp
qed

lemma bfs_inv:
  "levels_inv c res \<Longrightarrow> set q \<subseteq> fst ` set res \<Longrightarrow>
   \<exists>res'. bfs adj maxDepth res q = Inr res' \<and> levels_inv c res'"
proof (induction adj maxDepth res q rule: bfs.induct)
  case (1 adj maxDepth res)
  then show ?case by simp
next
  case (2 adj maxDepth res cur q)
  from "2.prems"(2) have "cur \<in> fst ` set res" by simp
  then obtain ci where ci: "map_of res cur = Some ci"
    by (metis js_has_def js_has_iff not_Some_eq)
  show ?case
  proof (cases "maxDepth \<le> depth ci")
    case True
    from "2.IH"(1) [OF ci True "2.prems"(1)] "2.prems"(2) ci True
    show ?thesis by simp
  next
    case False
    have "levels_inv c (fst (expand adj cur ci (res, q))) \<and>
          set (snd (expand adj cur ci (res, q))) \<subseteq> fst ` set (fst (expand adj cur ci (res, q)))"
      unfolding expand_def
      using fold_visit_inv [of c "(res, q)" cur ci] "2.prems" ci by simp
    with "2.IH"(2) [OF ci False] ci False show ?thesis by simp
  qed
qed

text \<open>
  Claim C7. When the focus key is a node key, \<open>computeTreeLevels\<close> returns (it never throws)
  a mapping in which the focus has depth 0 and no parent, every other entry has a parent
  that is itself an entry, one level above it, and depth 0 occurs for the focus only. This
  holds for every \<open>maxDepth\<close>.
\<close>

theorem computeTreeLevels_level_invariant:
  assumes "centerKey \<in> key ` set nodes"
  shows "\<exists>lv. computeTreeLevels nodes edges centerKey maxDepth = Inr lv \<and>
           map_of lv centerKey = Some \<lparr>depth = 0, parent = None\<rparr> \<and>
           (\<forall>k info. map_of lv k = Some info \<and> k \<noteq> centerKey \<longrightarrow>
              (\<exists>p pinfo. parent info = Some p \<and> map_of lv p = Some pinfo \<and>
                 depth info = depth pinfo + 1)) \<and>
           (\<forall>k info. map_of lv k = Some info \<and> depth info = 0 \<longrightarrow> k = centerKey)"
proof -
  obtain adj where adj: "build_adj nodes edges = Inr adj"
    using build_adj_ok by blast
  let ?init = "[(centerKey, \<lparr>depth = 0, parent = None\<rparr>)]"
  have "levels_inv centerKey ?init" by (simp add: levels_inv_def)
  moreover have "set [centerKey] \<subseteq> fst ` set ?init" by simp
  ultimately obtain lv where lv: "bfs adj maxDepth ?init [centerKey] = Inr lv" "levels_inv centerKey lv"
    using bfs_inv by blast
  have run: "computeTreeLevels nodes edges centerKey maxDepth = Inr lv"
    using assms adj lv(1) by (simp add: computeTreeLevels_def)
  have zero: "k = centerKey" if "map_of lv k = Some info" "depth info = 0" for k info
  proof (rule ccontr)
    assume "k \<noteq> centerKey"
    with lv(2) that(1) obtain pinfo :: InternalNodeInfo where "depth info = depth pinfo + 1"
      unfolding levels_inv_def by blast
    with that(2) show False by simp
  qed
  show ?thesis
    using run lv(2) zero unfolding levels_inv_def by blast
qed

theorem computeTreeLevels_level_invariant_witness:
  "''CENTER'' \<in> key ` set scenario_nodes \<and>
   (\<exists>lv. computeTreeLevels scenario_nodes scenario_edges ''CENTER'' 2 = Inr lv \<and>
          map_of lv ''CENTER'' = Some \<lparr>depth = 0, parent = None\<rparr> \<and>
          (\<forall>k info. map_of lv k = Some info \<and> k \<noteq> ''CENTER'' \<longrightarrow>
             (\<exists>p pinfo. parent info = Some p \<and> map_of lv p = Some pinfo \<and>
                depth info = depth pinfo + 1)) \<and>
          (\<forall>k info. map_of lv k = Some info \<and> depth info = 0 \<longrightarrow> k = ''CENTER''))"
proof -
  have h: "''CENTER'' \<in> key ` set scenario_nodes"
    by (simp add: scenario_nodes_def mk_node_def)
  from h computeTreeLevels_level_invariant [OF h, of scenario_edges 2]
  show ?thesis by (rule conjI)
qed

section \<open>The radial layout and the levels it places\<close>

lemmas levels_eval =
  computeTreeLevels_def build_adj_def add_edge_def adj_push_def expand_def visit_def
  neighbours_def js_has_def mk_node_def mk_edge_def

lemmas layout_eval =
  byDepth_def push_byDepth_def place_depth_def place_child_def place_circle_def parent_position_def
  childrenByParent_def add_child_def map_fst_js_set js_keys_def Let_def

lemmas advanced_eval =
  place_depth_advanced_def place_child_advanced_def place_level1_def sort_cmp_def

lemma chain5_levels:
  "computeTreeLevels (map mk_node chain5) (chain_edges chain5) ''N0'' 4 =
     Inr [(''N0'', \<lparr>depth = 0, parent = None\<rparr>),
          (''N1'', \<lparr>depth = 1, parent = Some ''N0''\<rparr>),
          (''N2'', \<lparr>depth = 2, parent = Some ''N1''\<rparr>),
          (''N3'', \<lparr>depth = 3, parent = Some ''N2''\<rparr>),
          (''N4'', \<lparr>depth = 4, parent = Some ''N3''\<rparr>)]"
  by (simp add: levels_eval chain5_def)

lemma chain5_levels1:
  "computeTreeLevels (map mk_node chain5) (chain_edges chain5) ''N0'' 1 =
     Inr [(''N0'', \<lparr>depth = 0, parent = None\<rparr>),
          (''N1'', \<lparr>depth = 1, parent = Some ''N0''\<rparr>)]"
  by (simp add: levels_eval chain5_def)

lemma chain5_simple_keys:
  "\<exists>ps. computeRadialLayout (map mk_node chain5) (chain_edges chain5) ''N0'' 4 radii csd = Inr ps \<and>
        js_keys ps = [''N0'', ''N1'', ''N2'', ''N3'']"
  unfolding computeRadialLayout_def chain5_levels
  by (simp add: layout_eval mk_node_def chain5_def)

lemma chain5_advanced_keys:
  "\<exists>ps. computeRadialLayoutAdvanced lc (map mk_node chain5) (chain_edges chain5) ''N0'' 4 radii csd
           nodeBox None isExpandable = Inr ps \<and>
        js_keys ps = [''N0'', ''N1'']"
  unfolding computeRadialLayoutAdvanced_def chain5_levels
  by (simp add: layout_eval advanced_eval mk_node_def chain5_def)

text \<open>
  Claim C1, at a failing input: the path \<open>N0 - N1 - N2 - N3 - N4\<close> with focus \<open>N0\<close> and
  \<open>maxDepth = 4\<close>. \<open>N4\<close> has a level entry (depth 4), and the layout returns positions for
  \<open>N0\<close> to \<open>N3\<close> only in simple mode (the default threshold), and for \<open>N0\<close> and \<open>N1\<close> only
  in advanced mode (threshold 1): the simple layout places the depths 1, 2 and 3, the
  advanced layout the depths 1, 6 and 7.
\<close>

theorem computeRadialLayoutAdaptive_chain5:
  "(\<exists>lv. computeTreeLevels (map mk_node chain5) (chain_edges chain5) ''N0'' 4 = Inr lv \<and>
         map_of lv ''N4'' = Some \<lparr>depth = 4, parent = Some ''N3''\<rparr>) \<and>
   (\<exists>ps. computeRadialLayoutAdaptive lc (map mk_node chain5) (chain_edges chain5) ''N0'' 4 radii csd
            None None None None = Inr ps \<and>
         js_keys ps = [''N0'', ''N1'', ''N2'', ''N3''] \<and> map_of ps ''N4'' = None) \<and>
   (\<exists>ps. computeRadialLayoutAdaptive lc (map mk_node chain5) (chain_edges chain5) ''N0'' 4 radii csd
            (Some 1) None None None = Inr ps \<and>
         js_keys ps = [''N0'', ''N1''] \<and> map_of ps ''N4'' = None)"
proof (intro conjI)
  show "\<exists>lv. computeTreeLevels (map mk_node chain5) (chain_edges chain5) ''N0'' 4 = Inr lv \<and>
          map_of lv ''N4'' = Some \<lparr>depth = 4, parent = Some ''N3''\<rparr>"
    unfolding chain5_levels by simp
next
  obtain ps where ps:
    "computeRadialLayout (map mk_node chain5) (chain_edges chain5) ''N0'' 4 radii csd = Inr ps"
    "js_keys ps = [''N0'', ''N1'', ''N2'', ''N3'']"
    using chain5_simple_keys by blast
  from ps(2) have "''N4'' \<notin> fst ` set ps" by (simp add: js_keys_def flip: set_map)
  then have "map_of ps ''N4'' = None" by (simp add: map_of_eq_None_iff)
  then show "\<exists>ps. computeRadialLayoutAdaptive lc (map mk_node chain5) (chain_edges chain5) ''N0'' 4
                 radii csd None None None None = Inr ps \<and>
               js_keys ps = [''N0'', ''N1'', ''N2'', ''N3''] \<and> map_of ps ''N4'' = None"
    unfolding computeRadialLayoutAdaptive_def chain5_levels1 using ps by simp
next
  obtain ps where ps:
    "computeRadialLayoutAdvanced lc (map mk_node chain5) (chain_edges chain5) ''N0'' 4 radii csd
       None None None = Inr ps"
    "js_keys ps = [''N0'', ''N1'']"
    using chain5_advanced_keys by blast
  from ps(2) have "''N4'' \<notin> fst ` set ps" by (simp add: js_keys_def flip: set_map)
  then have "map_of ps ''N4'' = None" by (simp add: map_of_eq_None_iff)
  then show "\<exists>ps. computeRadialLayoutAdaptive lc (map mk_node chain5) (chain_edges chain5) ''N0'' 4
                 radii csd (Some 1) None None None = Inr ps \<and>
               js_keys ps = [''N0'', ''N1''] \<and> map_of ps ''N4'' = None"
    unfolding computeRadialLayoutAdaptive_def chain5_levels1 using ps by simp
qed

section \<open>Which keys the layouts place\<close>

subsection \<open>Level entries are node keys, at depth at most \<open>maxDepth\<close>\<close>

lemma adj_universe_js_set:
  "adj_universe (js_set adj k l) \<subseteq> adj_universe adj \<union> set l"
proof (induction adj)
  case Nil
  show ?case by (simp add: adj_universe_def)
next
  case (Cons a adj)
  then show ?case by (cases a) (auto simp: adj_universe_def)
qed

lemma adj_push_universe:
  assumes "adj_push adj k v = Inr adj'"
  shows "adj_universe adj' \<subseteq> insert v (adj_universe adj)"
proof -
  from assms obtain l where l: "map_of adj k = Some l" "adj' = js_set adj k (l @ [v])"
    by (cases "map_of adj k") (auto simp: adj_push_def)
  from l(1) have "(k, l) \<in> set adj" by (rule map_of_SomeD)
  then have "l \<in> snd ` set adj" by force
  then have "set l \<subseteq> adj_universe adj" by (auto simp: adj_universe_def)
  then show ?thesis using adj_universe_js_set [of adj k "l @ [v]"] l(2) by auto
qed

lemma add_edge_universe:
  assumes "add_edge N e adj = Inr adj'" "adj_universe adj \<subseteq> N"
  shows "adj_universe adj' \<subseteq> N"
proof (cases "edge_from e \<notin> N \<or> edge_to e \<notin> N")
  case True
  then show ?thesis using assms by (auto simp: add_edge_def)
next
  case False
  then obtain adj1 where
    a1: "adj_push adj (edge_from e) (edge_to e) = Inr adj1"
    and a2: "adj_push adj1 (edge_to e) (edge_from e) = Inr adj'"
    using assms(1) by (auto simp: add_edge_def split: sum.splits)
  from adj_push_universe [OF a1] adj_push_universe [OF a2] False assms(2)
  show ?thesis by blast
qed

lemma foldE_add_edge_universe:
  "foldE (add_edge N) edges adj = Inr adj' \<Longrightarrow> adj_universe adj \<subseteq> N \<Longrightarrow> adj_universe adj' \<subseteq> N"
proof (induction edges arbitrary: adj)
  case Nil
  then show ?case by simp
next
  case (Cons e edges)
  from Cons.prems(1) obtain adj1 where
    a1: "add_edge N e adj = Inr adj1" and a2: "foldE (add_edge N) edges adj1 = Inr adj'"
    by (auto split: sum.splits)
  from Cons.IH [OF a2 add_edge_universe [OF a1 Cons.prems(2)]] show ?case .
qed

lemma init_adj_universe:
  "adj_universe adj = {} \<Longrightarrow> adj_universe (fold (\<lambda>n adj. js_set adj (key n) []) nodes adj) = {}"
proof (induction nodes arbitrary: adj)
  case Nil
  then show ?case by simp
next
  case (Cons n nodes)
  have "adj_universe (js_set adj (key n) []) = {}"
    using adj_universe_js_set [of adj "key n" "[]"] Cons.prems by simp
  from Cons.IH [OF this] show ?case by simp
qed

lemma build_adj_universe:
  assumes "build_adj nodes edges = Inr adj"
  shows "adj_universe adj \<subseteq> key ` set nodes"
proof -
  have "adj_universe (fold (\<lambda>n adj. js_set adj (key n) []) nodes []) \<subseteq> set (map key nodes)"
    using init_adj_universe [of "[]" nodes] by (simp add: adj_universe_def)
  from foldE_add_edge_universe [OF _ this] assms show ?thesis
    by (simp add: build_adj_def)
qed

lemma visit_bounded:
  assumes "levels_bounded N md res" "depth ci < md" "nb \<in> N"
  shows "levels_bounded N md (fst (visit cur ci nb (res, q)))"
  using assms
  by (auto simp: visit_def levels_bounded_def js_set_keys map_of_js_set)

lemma fold_visit_bounded:
  "levels_bounded N md (fst s) \<Longrightarrow> depth ci < md \<Longrightarrow> set nbs \<subseteq> N \<Longrightarrow>
   levels_bounded N md (fst (fold (visit cur ci) nbs s))"
proof (induction nbs arbitrary: s)
  case Nil
  then show ?case by simp
next
  case (Cons nb nbs)
  obtain res q where s: "s = (res, q)" by (cases s)
  have "levels_bounded N md (fst (visit cur ci nb s))"
    using visit_bounded [of N md res ci nb cur q] Cons.prems by (simp add: s)
  from Cons.IH [OF this] Cons.prems show ?case by simp
qed

lemma bfs_bounded:
  "bfs adj md res q = Inr res' \<Longrightarrow> levels_bounded N md res \<Longrightarrow> adj_universe adj \<subseteq> N \<Longrightarrow>
   levels_bounded N md res'"
proof (induction adj md res q rule: bfs.induct)
  case (1 adj maxDepth res)
  then show ?case by simp
next
  case (2 adj maxDepth res cur q)
  from "2.prems"(1) obtain ci where ci: "map_of res cur = Some ci"
    by (cases "map_of res cur") auto
  show ?case
  proof (cases "maxDepth \<le> depth ci")
    case True
    from "2.IH"(1) [OF ci True _ "2.prems"(2,3)] "2.prems"(1) ci True
    show ?thesis by simp
  next
    case False
    have "set (neighbours adj cur) \<subseteq> N"
      using neighbours_universe [of adj cur] "2.prems"(3) by blast
    then have "levels_bounded N maxDepth (fst (expand adj cur ci (res, q)))"
      unfolding expand_def
      using fold_visit_bounded [of N maxDepth "(res, q)" ci] "2.prems"(2) False by simp
    from "2.IH"(2) [OF ci False _ this "2.prems"(3)] "2.prems"(1) ci False
    show ?thesis by simp
  qed
qed

lemma computeTreeLevels_bounded:
  assumes "computeTreeLevels nodes edges centerKey maxDepth = Inr lv"
  shows "levels_bounded (key ` set nodes) maxDepth lv"
proof (cases "centerKey \<in> key ` set nodes")
  case False
  then have "lv = []" using assms
    by (auto simp: computeTreeLevels_def split: sum.splits)
  then show ?thesis by (simp add: levels_bounded_def)
next
  case True
  obtain adj where adj: "build_adj nodes edges = Inr adj"
    using build_adj_ok by blast
  have run: "bfs adj maxDepth [(centerKey, \<lparr>depth = 0, parent = None\<rparr>)] [centerKey] = Inr lv"
    using assms adj True by (simp add: computeTreeLevels_def)
  have "levels_bounded (key ` set nodes) maxDepth [(centerKey, \<lparr>depth = 0, parent = None\<rparr>)]"
    using True by (simp add: levels_bounded_def)
  from bfs_bounded [OF run this build_adj_universe [OF adj]] show ?thesis .
qed

lemma computeTreeLevels_returns:
  "\<exists>lv. computeTreeLevels nodes edges centerKey maxDepth = Inr lv"
proof -
  obtain adj where adj: "build_adj nodes edges = Inr adj"
    using build_adj_ok by blast
  show ?thesis
  proof (cases "centerKey \<in> key ` set nodes")
    case True
    have "levels_inv centerKey [(centerKey, \<lparr>depth = 0, parent = None\<rparr>)]"
      by (simp add: levels_inv_def)
    moreover have "set [centerKey] \<subseteq> fst ` set [(centerKey, \<lparr>depth = 0, parent = None\<rparr>)]"
      by simp
    ultimately obtain lv where
      "bfs adj maxDepth [(centerKey, \<lparr>depth = 0, parent = None\<rparr>)] [centerKey] = Inr lv"
      using bfs_inv by blast
    then show ?thesis using True adj by (simp add: computeTreeLevels_def)
  next
    case False
    then show ?thesis using adj by (simp add: computeTreeLevels_def)
  qed
qed

subsection \<open>Keys of the position map after each loop\<close>

lemma place_child_keys:
  "fst ` set (place_child lv cbp csd r k pos) =
     fst ` set pos \<union> (if has_parent_key lv k then {k} else {})"
  by (auto simp: place_child_def has_parent_key_def js_set_keys Let_def split: option.splits)

lemma fold_place_keys:
  assumes "\<And>k pos. fst ` set (f k pos) = fst ` set pos \<union> (if has_parent_key lv k then {k} else {})"
  shows "fst ` set (fold f ks pos) = fst ` set pos \<union> {k \<in> set ks. has_parent_key lv k}"
proof (induction ks arbitrary: pos)
  case Nil
  show ?case by simp
next
  case (Cons k ks)
  show ?case unfolding fold_Cons o_apply Cons.IH assms by auto
qed

lemma place_depth_keys:
  "fst ` set (place_depth lv cbp csd maxDepth radii bd d pos) =
     fst ` set pos \<union> (if d > maxDepth then {} else {k \<in> set (bd d). has_parent_key lv k})"
  unfolding place_depth_def
  using fold_place_keys [of "place_child lv cbp csd (radii d)" lv "bd d" pos]
  by (simp add: place_child_keys)

lemma fold_js_set_snd_keys:
  "fst ` set (fold (\<lambda>(i, k) pos. js_set pos k (F i)) xs pos) = fst ` set pos \<union> snd ` set xs"
proof (induction xs arbitrary: pos)
  case Nil
  show ?case by simp
next
  case (Cons x xs)
  obtain i k where x: "x = (i, k)" by (cases x)
  show ?case unfolding x fold_Cons o_apply Cons.IH by (simp add: js_set_keys Un_commute insert_commute)
qed

lemma place_circle_keys:
  "fst ` set (place_circle r ks pos) = fst ` set pos \<union> set ks"
proof -
  have "snd ` set (enumerate 0 ks) = set ks"
    by (simp flip: set_map)
  then show ?thesis
    unfolding place_circle_def Let_def
    using fold_js_set_snd_keys [of _ "enumerate 0 ks" pos] by simp
qed

lemma place_ring_keys:
  "fst ` set (place_ring halfW halfH uo sc ks pos) = fst ` set pos \<union> set ks"
proof -
  have "snd ` set (enumerate 0 ks) = set ks"
    by (simp flip: set_map)
  then show ?thesis
    unfolding place_ring_def Let_def
    using fold_js_set_snd_keys [of _ "enumerate 0 ks" pos] by simp
qed

lemma place_child_advanced_keys:
  "fst ` set (place_child_advanced nodes isExp l1 nb lv cbp csd radii d k pos) =
     fst ` set pos \<union> (if has_parent_key lv k then {k} else {})"
  by (auto simp: place_child_advanced_def has_parent_key_def js_set_keys split: option.splits)

lemma fill_outer_subset: "set (fill_outer c acc ks) \<subseteq> set acc \<union> set ks"
  by (induction c acc ks rule: fill_outer.induct) auto

lemma insort_cmp_set: "set (insort_cmp cmp a xs) = insert a (set xs)"
  by (induction xs) auto

lemma sort_cmp_set: "set (sort_cmp cmp xs) = set xs"
  by (induction xs) (auto simp: sort_cmp_def insort_cmp_set)

lemma outer_keys_subset: "set (outer_keys nodes isExp l lvl1) \<subseteq> set lvl1"
proof -
  have "set (fill_outer c (filter P lvl1) (filter Q lvl1)) \<subseteq> set lvl1" for c P Q
    using fill_outer_subset [of c "filter P lvl1" "filter Q lvl1"] by auto
  then show ?thesis unfolding outer_keys_def Let_def .
qed

lemma place_level1_keys:
  "fst ` set (place_level1 nodes isExp l1 radii lvl1 pos) = fst ` set pos \<union> set lvl1"
  using outer_keys_subset [of nodes isExp _ lvl1]
  by (auto simp: place_level1_def Let_def place_ring_keys place_circle_keys)

lemma foldE_push_byDepth:
  "foldE (push_byDepth lv) nodes bd0 = Inr bd \<Longrightarrow>
   set (bd d) = set (bd0 d) \<union>
     {k \<in> key ` set nodes. \<exists>info. map_of lv k = Some info \<and> depth info = d}"
proof (induction nodes arbitrary: bd0)
  case Nil
  then show ?case by simp
next
  case (Cons n nodes)
  from Cons.prems obtain bd1 where
    b1: "push_byDepth lv n bd0 = Inr bd1" and b2: "foldE (push_byDepth lv) nodes bd1 = Inr bd"
    by (auto split: sum.splits)
  from b1 have "set (bd1 d) = set (bd0 d) \<union>
      {k. k = key n \<and> (\<exists>info. map_of lv k = Some info \<and> depth info = d)}"
    by (auto simp: push_byDepth_def split: option.splits if_splits)
  with Cons.IH [OF b2] show ?case by auto
qed

lemma byDepth_set:
  "byDepth lv nodes = Inr bd \<Longrightarrow>
   set (bd d) = {k \<in> key ` set nodes. \<exists>info. map_of lv k = Some info \<and> depth info = d}"
  unfolding byDepth_def using foldE_push_byDepth [of lv nodes "\<lambda>d. []" bd d] by simp

lemma foldE_push_byDepth_ok:
  "(\<And>k info. map_of lv k = Some info \<Longrightarrow> depth info \<le> 7) \<Longrightarrow>
   \<exists>bd. foldE (push_byDepth lv) nodes bd0 = Inr bd"
proof (induction nodes arbitrary: bd0)
  case Nil
  show ?case by simp
next
  case (Cons n nodes)
  have "\<exists>bd1. push_byDepth lv n bd0 = Inr bd1"
  proof (cases "map_of lv (key n)")
    case None
    then show ?thesis by (simp add: push_byDepth_def)
  next
    case (Some info)
    with Cons.prems [of "key n" info] show ?thesis by (simp add: push_byDepth_def not_less)
  qed
  then obtain bd1 where "push_byDepth lv n bd0 = Inr bd1" ..
  with Cons.IH [of bd1] Cons.prems show ?case by simp
qed

lemma byDepth_ok:
  assumes "levels_bounded N md lv" "md \<le> 7"
  shows "\<exists>bd. byDepth lv nodes = Inr bd"
  unfolding byDepth_def
proof (rule foldE_push_byDepth_ok)
  fix k info assume "map_of lv k = Some info"
  with assms(1) have "depth info \<le> md" unfolding levels_bounded_def by blast
  with assms(2) show "depth info \<le> 7" by simp
qed

lemma place_depth_advanced_keys:
  "fst ` set (place_depth_advanced nodes isExp l1 nb lv cbp csd maxDepth radii bd d pos) =
     fst ` set pos \<union> (if d > maxDepth then {} else {k \<in> set (bd d). has_parent_key lv k})"
  unfolding place_depth_advanced_def
  using fold_place_keys [of "place_child_advanced nodes isExp l1 nb lv cbp csd radii d" lv "bd d" pos]
  by (simp add: place_child_advanced_keys)

lemma computeRadialLayout_keys:
  assumes "computeTreeLevels nodes edges c md = Inr lv" "byDepth lv nodes = Inr bd"
  shows "\<exists>ps. computeRadialLayout nodes edges c md radii csd = Inr ps \<and>
           fst ` set ps = {c} \<union> set (bd 1) \<union>
             (if 2 > md then {} else {k \<in> set (bd 2). has_parent_key lv k}) \<union>
             (if 3 > md then {} else {k \<in> set (bd 3). has_parent_key lv k})"
  unfolding computeRadialLayout_def
  by (simp add: assms place_depth_keys place_circle_keys Un_assoc)

lemma computeRadialLayoutAdvanced_keys:
  assumes "computeTreeLevels nodes edges c md = Inr lv" "byDepth lv nodes = Inr bd"
  shows "\<exists>ps. computeRadialLayoutAdvanced lc nodes edges c md radii csd nb l1 isExp = Inr ps \<and>
           fst ` set ps = {c} \<union> set (bd 1) \<union>
             (if 6 > md then {} else {k \<in> set (bd 6). has_parent_key lv k}) \<union>
             (if 7 > md then {} else {k \<in> set (bd 7). has_parent_key lv k})"
  unfolding computeRadialLayoutAdvanced_def
  by (simp add: assms place_depth_advanced_keys place_level1_keys sort_cmp_set Un_assoc Let_def)

section \<open>Children whose parent has no position\<close>

lemma map_of_keys_iff: "map_of m k \<noteq> None \<longleftrightarrow> k \<in> fst ` set m"
  by (simp add: map_of_eq_None_iff)

text \<open>
  Claim C4, as the code has it. For \<open>maxDepth \<le> 7\<close> both layouts return. A key whose level
  entry names a non-empty parent is placed whenever its depth is one the layout visits
  (2 and 3 in the simple layout, 6 and 7 in the advanced one), whether or not the parent
  has a position: when the parent has no entry in the position map at that moment, the
  loop body stores for the key the point computed with the origin as the parent's
  position. Every key of a returned map is the focus, a key of depth 1, or a key whose level
  entry names a non-empty parent, so a parent without children places nothing.
\<close>

theorem layout_places_child_without_parent_position:
  assumes "maxDepth \<le> 7"
  shows "\<exists>lv psS psA.
           computeTreeLevels nodes edges centerKey maxDepth = Inr lv \<and>
           computeRadialLayout nodes edges centerKey maxDepth radii csd = Inr psS \<and>
           computeRadialLayoutAdvanced lc nodes edges centerKey maxDepth radii csd nodeBox l1 isExp
             = Inr psA \<and>
           (\<forall>k info. map_of lv k = Some info \<and> has_parent_key lv k \<longrightarrow>
              (depth info \<in> {2, 3} \<longrightarrow> map_of psS k \<noteq> None) \<and>
              (depth info \<in> {6, 7} \<longrightarrow> map_of psA k \<noteq> None)) \<and>
           (\<forall>k. map_of psS k \<noteq> None \<or> map_of psA k \<noteq> None \<longrightarrow>
              k = centerKey \<or>
              (\<exists>info. map_of lv k = Some info \<and> (depth info = 1 \<or> has_parent_key lv k))) \<and>
           (\<forall>cbp r d k positions pk info.
              map_of lv k = Some info \<and> parent info = Some pk \<and> pk \<noteq> [] \<and>
              map_of positions pk = None \<longrightarrow>
              place_child lv cbp csd r k positions =
                js_set positions k (child_position cbp csd r k pk origin) \<and>
              place_child_advanced nodes isExp l1 nodeBox lv cbp csd radii d k positions =
                js_set positions k
                  (child_position_advanced nodes isExp l1 nodeBox cbp csd radii d k pk origin))"
proof -
  obtain lv where lv: "computeTreeLevels nodes edges centerKey maxDepth = Inr lv"
    using computeTreeLevels_returns by blast
  have bounded: "levels_bounded (key ` set nodes) maxDepth lv"
    using lv by (rule computeTreeLevels_bounded)
  obtain bd where bd: "byDepth lv nodes = Inr bd"
    using byDepth_ok [OF bounded assms] by blast
  note sets = byDepth_set [OF bd]
  obtain psS where psS: "computeRadialLayout nodes edges centerKey maxDepth radii csd = Inr psS"
    and keysS: "fst ` set psS = {centerKey} \<union> set (bd 1) \<union>
             (if 2 > maxDepth then {} else {k \<in> set (bd 2). has_parent_key lv k}) \<union>
             (if 3 > maxDepth then {} else {k \<in> set (bd 3). has_parent_key lv k})"
    using computeRadialLayout_keys [OF lv bd] by blast
  obtain psA where psA: "computeRadialLayoutAdvanced lc nodes edges centerKey maxDepth radii csd
        nodeBox l1 isExp = Inr psA"
    and keysA: "fst ` set psA = {centerKey} \<union> set (bd 1) \<union>
             (if 6 > maxDepth then {} else {k \<in> set (bd 6). has_parent_key lv k}) \<union>
             (if 7 > maxDepth then {} else {k \<in> set (bd 7). has_parent_key lv k})"
    using computeRadialLayoutAdvanced_keys [OF lv bd] by blast
  have in_bd: "k \<in> set (bd (depth info))" "depth info \<le> maxDepth"
    if "map_of lv k = Some info" for k info
  proof -
    from that have "k \<in> fst ` set lv" by (metis map_of_keys_iff option.distinct(1))
    with bounded have "k \<in> key ` set nodes" unfolding levels_bounded_def by blast
    with that show "k \<in> set (bd (depth info))" by (simp add: sets)
    from bounded that show "depth info \<le> maxDepth" unfolding levels_bounded_def by blast
  qed
  have placed: "(depth info \<in> {2, 3} \<longrightarrow> map_of psS k \<noteq> None) \<and>
                (depth info \<in> {6, 7} \<longrightarrow> map_of psA k \<noteq> None)"
    if "map_of lv k = Some info \<and> has_parent_key lv k" for k info
    using in_bd [of k info] that unfolding map_of_keys_iff keysS keysA
    by (auto simp: not_less)
  have only: "k = centerKey \<or>
              (\<exists>info. map_of lv k = Some info \<and> (depth info = 1 \<or> has_parent_key lv k))"
    if "map_of psS k \<noteq> None \<or> map_of psA k \<noteq> None" for k
  proof -
    from that have "k = centerKey \<or> k \<in> set (bd 1) \<or> has_parent_key lv k"
      unfolding map_of_keys_iff keysS keysA by (auto split: if_splits)
    moreover have "\<exists>info. map_of lv k = Some info" if "has_parent_key lv k"
      using that by (cases "map_of lv k") (auto simp: has_parent_key_def)
    ultimately show ?thesis unfolding sets by blast
  qed
  have step: "\<forall>cbp r d k positions pk info.
              map_of lv k = Some info \<and> parent info = Some pk \<and> pk \<noteq> [] \<and>
              map_of positions pk = None \<longrightarrow>
              place_child lv cbp csd r k positions =
                js_set positions k (child_position cbp csd r k pk origin) \<and>
              place_child_advanced nodes isExp l1 nodeBox lv cbp csd radii d k positions =
                js_set positions k
                  (child_position_advanced nodes isExp l1 nodeBox cbp csd radii d k pk origin)"
    by (simp add: place_child_def place_child_advanced_def parent_position_def)
  have a: "\<forall>k info. map_of lv k = Some info \<and> has_parent_key lv k \<longrightarrow>
              (depth info \<in> {2, 3} \<longrightarrow> map_of psS k \<noteq> None) \<and>
              (depth info \<in> {6, 7} \<longrightarrow> map_of psA k \<noteq> None)"
    using placed by blast
  have b: "\<forall>k. map_of psS k \<noteq> None \<or> map_of psA k \<noteq> None \<longrightarrow>
              k = centerKey \<or>
              (\<exists>info. map_of lv k = Some info \<and> (depth info = 1 \<or> has_parent_key lv k))"
    using only by blast
  from lv psS psA a b step show ?thesis by blast
qed

lemma chain7_levels:
  "computeTreeLevels (map mk_node chain7) (chain_edges chain7) ''N0'' 6 =
     Inr [(''N0'', \<lparr>depth = 0, parent = None\<rparr>),
          (''N1'', \<lparr>depth = 1, parent = Some ''N0''\<rparr>),
          (''N2'', \<lparr>depth = 2, parent = Some ''N1''\<rparr>),
          (''N3'', \<lparr>depth = 3, parent = Some ''N2''\<rparr>),
          (''N4'', \<lparr>depth = 4, parent = Some ''N3''\<rparr>),
          (''N5'', \<lparr>depth = 5, parent = Some ''N4''\<rparr>),
          (''N6'', \<lparr>depth = 6, parent = Some ''N5''\<rparr>)]"
  by (simp add: levels_eval chain7_def)

lemma chain7_advanced:
  "computeRadialLayoutAdvanced code_compare (map mk_node chain7) (chain_edges chain7) ''N0'' 6
     radii100 0 None None None =
   Inr [(''N0'', \<lparr>pos_x = 0, pos_y = 0\<rparr>),
        (''N1'', \<lparr>pos_x = 100, pos_y = 0\<rparr>),
        (''N6'', \<lparr>pos_x = 100, pos_y = 0\<rparr>)]"
  unfolding computeRadialLayoutAdvanced_def chain7_levels
  by (simp add: layout_eval advanced_eval child_position_advanced_def sibling_t_def atan2_def
        degToRad_def origin_def radii100_def mk_node_def chain7_def)

theorem layout_places_child_without_parent_position_witness:
  "(6::nat) \<le> 7 \<and>
   (\<exists>ps. computeRadialLayoutAdvanced code_compare (map mk_node chain7) (chain_edges chain7) ''N0'' 6
            radii100 0 None None None = Inr ps \<and>
         map_of ps ''N6'' \<noteq> None)"
proof -
  have h: "(6::nat) \<le> 7" by simp
  from layout_places_child_without_parent_position [OF h, of "map mk_node chain7"
      "chain_edges chain7" "''N0''" radii100 0 code_compare None None None]
  obtain lv psS psA where
    lv: "computeTreeLevels (map mk_node chain7) (chain_edges chain7) ''N0'' 6 = Inr lv"
    and psS: "computeRadialLayout (map mk_node chain7) (chain_edges chain7) ''N0'' 6 radii100 0
                = Inr psS"
    and psA: "computeRadialLayoutAdvanced code_compare (map mk_node chain7) (chain_edges chain7)
                ''N0'' 6 radii100 0 None None None = Inr psA"
    and placed: "\<forall>k info. map_of lv k = Some info \<and> has_parent_key lv k \<longrightarrow>
                   (depth info \<in> {2, 3} \<longrightarrow> map_of psS k \<noteq> None) \<and>
                   (depth info \<in> {6, 7} \<longrightarrow> map_of psA k \<noteq> None)"
    by (elim exE conjE) (rule that)
  from lv have entry: "map_of lv ''N6'' = Some \<lparr>depth = 6, parent = Some ''N5''\<rparr>"
    unfolding chain7_levels by auto
  then have "has_parent_key lv ''N6''" by (simp add: has_parent_key_def)
  with placed entry have "map_of psA ''N6'' \<noteq> None" by fastforce
  with psA h show ?thesis by blast
qed

text \<open>
  Claim C4 as stated fails on the path \<open>N0 - ... - N6\<close> with \<open>maxDepth = 6\<close> in the advanced
  layout: \<open>N6\<close> has depth 6 and parent \<open>N5\<close>, \<open>N5\<close> (depth 5) never gets a position, and
  \<open>N6\<close> is placed all the same, at distance \<open>radii[6]\<close> from the origin.
\<close>

theorem child_without_parent_position_counterexample:
  "level_of (computeTreeLevels (map mk_node chain7) (chain_edges chain7) ''N0'' 6) ''N6''
     = Some \<lparr>depth = 6, parent = Some ''N5''\<rparr> \<and>
   position_of (computeRadialLayoutAdvanced code_compare (map mk_node chain7) (chain_edges chain7)
                  ''N0'' 6 radii100 0 None None None) ''N5'' = None \<and>
   position_of (computeRadialLayoutAdvanced code_compare (map mk_node chain7) (chain_edges chain7)
                  ''N0'' 6 radii100 0 None None None) ''N6'' = Some \<lparr>pos_x = 100, pos_y = 0\<rparr>"
  unfolding chain7_levels chain7_advanced by (simp add: level_of_def position_of_def)

section \<open>The rectangular ring\<close>

lemma star_levels:
  "computeTreeLevels star_nodes star_edges ''HUB'' 1 =
     Inr [(''HUB'', \<lparr>depth = 0, parent = None\<rparr>),
          (''A'', \<lparr>depth = 1, parent = Some ''HUB''\<rparr>),
          (''B'', \<lparr>depth = 1, parent = Some ''HUB''\<rparr>),
          (''C'', \<lparr>depth = 1, parent = Some ''HUB''\<rparr>),
          (''D'', \<lparr>depth = 1, parent = Some ''HUB''\<rparr>)]"
  by (simp add: levels_eval star_nodes_def star_edges_def)

lemma star_byDepth:
  "\<exists>bd. byDepth [(''HUB'', \<lparr>depth = 0, parent = None\<rparr>),
          (''A'', \<lparr>depth = 1, parent = Some ''HUB''\<rparr>),
          (''B'', \<lparr>depth = 1, parent = Some ''HUB''\<rparr>),
          (''C'', \<lparr>depth = 1, parent = Some ''HUB''\<rparr>),
          (''D'', \<lparr>depth = 1, parent = Some ''HUB''\<rparr>)] star_nodes = Inr bd \<and>
        bd 1 = [''A'', ''B'', ''C'', ''D'']"
  by (simp add: byDepth_def push_byDepth_def star_nodes_def mk_node_def)

lemma star_ring:
  "place_ring 200 200 (RING_U_OFFSET * 1) 1 [''A'', ''B'', ''C'', ''D''] [(''HUB'', origin)] =
   [(''HUB'', origin), (''A'', \<lparr>pos_x = 200, pos_y = - 176\<rparr>), (''B'', \<lparr>pos_x = 176, pos_y = 200\<rparr>),
    (''C'', \<lparr>pos_x = - 200, pos_y = 176\<rparr>), (''D'', \<lparr>pos_x = - 176, pos_y = - 200\<rparr>)]"
  by (simp add: place_ring_def pointOnRectPerimeter_def Let_def RING_U_OFFSET_def)

lemma star_sorted: "sort_cmp code_compare [''A'', ''B'', ''C'', ''D''] = [''A'', ''B'', ''C'', ''D'']"
  by (simp add: sort_cmp_def)

lemma star_outer: "outer_keys star_nodes (Some always_expandable) l1 [''A'', ''B'', ''C'', ''D''] = [''A'', ''B'', ''C'', ''D'']"
  by (simp add: outer_keys_def key_expandable_def nodeByKey_def star_nodes_def mk_node_def always_expandable_def Let_def)

lemma rings200_half: "rect_halfW rings200 r = 200" "rect_halfH rings200 r = 200" "l1_type rings200 = rectRings"
  by (simp_all add: rect_halfW_def rect_halfH_def rings200_def)

lemma star_level1:
  "place_level1 star_nodes (Some always_expandable) (Some rings200) radii100 [''A'', ''B'', ''C'', ''D''] [(''HUB'', origin)] =
   [(''HUB'', origin), (''A'', \<lparr>pos_x = 200, pos_y = - 176\<rparr>), (''B'', \<lparr>pos_x = 176, pos_y = 200\<rparr>),
    (''C'', \<lparr>pos_x = - 200, pos_y = 176\<rparr>), (''D'', \<lparr>pos_x = - 176, pos_y = - 200\<rparr>)]"
  unfolding place_level1_def Let_def option.case rings200_half star_outer star_ring
  by (simp add: place_ring_def)

text \<open>
  Claim C5, at a failing input. With \<open>halfW = halfH = 200\<close> the point of parameter
  \<open>u = 0\<close> is the corner \<open>(200, -200)\<close>, not the midpoint \<open>(200, 0)\<close> of the right edge that
  the comment of \<open>pointOnRectPerimeter\<close> names. The four outer-ring nodes of a star (all
  expandable, so all in the outer ring) are placed at \<open>u = i/4 + 0.015\<close>: 24 units past each
  corner, on the perimeter.
\<close>

theorem pointOnRectPerimeter_starts_at_corner:
  "pointOnRectPerimeter 0 200 200 = \<lparr>pos_x = 200, pos_y = - 200\<rparr> \<and>
   computeRadialLayoutAdvanced code_compare star_nodes star_edges ''HUB'' 1 radii100 80 None
     (Some rings200) (Some always_expandable) =
   Inr [(''HUB'', origin),
        (''A'', \<lparr>pos_x = 200, pos_y = - 176\<rparr>),
        (''B'', \<lparr>pos_x = 176, pos_y = 200\<rparr>),
        (''C'', \<lparr>pos_x = - 200, pos_y = 176\<rparr>),
        (''D'', \<lparr>pos_x = - 176, pos_y = - 200\<rparr>)]"
proof
  show "pointOnRectPerimeter 0 200 200 = \<lparr>pos_x = 200, pos_y = - 200\<rparr>"
    by (simp add: pointOnRectPerimeter_def Let_def)
next
  from star_byDepth obtain bd where
    bd: "byDepth [(''HUB'', \<lparr>depth = 0, parent = None\<rparr>),
                  (''A'', \<lparr>depth = 1, parent = Some ''HUB''\<rparr>),
                  (''B'', \<lparr>depth = 1, parent = Some ''HUB''\<rparr>),
                  (''C'', \<lparr>depth = 1, parent = Some ''HUB''\<rparr>),
                  (''D'', \<lparr>depth = 1, parent = Some ''HUB''\<rparr>)] star_nodes = Inr bd"
      "bd 1 = [''A'', ''B'', ''C'', ''D'']"
    by blast
  show "computeRadialLayoutAdvanced code_compare star_nodes star_edges ''HUB'' 1 radii100 80 None
          (Some rings200) (Some always_expandable) =
        Inr [(''HUB'', origin),
             (''A'', \<lparr>pos_x = 200, pos_y = - 176\<rparr>),
             (''B'', \<lparr>pos_x = 176, pos_y = 200\<rparr>),
             (''C'', \<lparr>pos_x = - 200, pos_y = 176\<rparr>),
             (''D'', \<lparr>pos_x = - 176, pos_y = - 200\<rparr>)]"
    unfolding computeRadialLayoutAdvanced_def star_levels bd sum.case Let_def star_sorted star_level1
    by (simp add: place_depth_advanced_def)
qed

section \<open>Properties of the expansion state machine\<close>






lemma indexOf_absent: "indexOf xs k = - 1 \<longleftrightarrow> k \<notin> set xs"
proof (induction xs)
  case Nil show ?case by simp
next
  case (Cons a xs)
  have "indexOf xs k \<ge> - 1" for xs :: "'a list"
    by (induction xs) auto
  from this [of xs] Cons show ?case by auto
qed

lemma indexOf_first:
  "k \<in> set xs \<Longrightarrow> \<exists>i < length xs. indexOf xs k = int i \<and> xs ! i = k \<and> (\<forall>j < i. xs ! j \<noteq> k)"
proof (induction xs)
  case Nil
  then show ?case by simp
next
  case (Cons a xs)
  show ?case
  proof (cases "a = k")
    case True
    then show ?thesis by (intro exI [of _ 0]) simp
  next
    case False
    with Cons.prems have "k \<in> set xs" by simp
    from Cons.IH [OF this] obtain i where
      i: "i < length xs" "indexOf xs k = int i" "xs ! i = k" "\<forall>j < i. xs ! j \<noteq> k" by blast
    have "\<forall>j < Suc i. (a # xs) ! j \<noteq> k"
      using False i(4) by (auto simp: nth_Cons split: nat.splits)
    then show ?thesis using False i by (intro exI [of _ "Suc i"]) simp
  qed
qed

lemmas path_eval =
  onExpandClick_def isDirectChild_def focus_connections_def nodeConnectionsMap_def
  add_connection_def visibleNodes_def visibleEdges_def mk_node_def mk_edge_def Let_def

text \<open>
  Claim C2, as the code has it. A click on a node of the path other than the root first
  tests whether the node is connected to the current focus: if it is, the node is appended
  to the path (a drill-down), and only otherwise is the path cut after the first
  occurrence of the node. The click on the hidden-children badge of a path node cuts the
  path after the first occurrence of the node in every case.
\<close>

theorem onExpandClick_on_path_node:
  assumes "nkey \<noteq> centerKey" "nkey \<in> set path"
  shows "(isDirectChild nodes edges path nkey \<longrightarrow>
            onExpandClick nodes edges centerKey nkey path = path @ [nkey]) \<and>
         (\<not> isDirectChild nodes edges path nkey \<longrightarrow>
            (\<exists>i < length path. path ! i = nkey \<and> (\<forall>j < i. path ! j \<noteq> nkey) \<and>
               onExpandClick nodes edges centerKey nkey path = take (Suc i) path)) \<and>
         (\<exists>i < length path. path ! i = nkey \<and> (\<forall>j < i. path ! j \<noteq> nkey) \<and>
            onCollapsedBadgeClick nkey path = take (Suc i) path)"
proof (intro conjI impI)
  assume "isDirectChild nodes edges path nkey"
  then show "onExpandClick nodes edges centerKey nkey path = path @ [nkey]"
    using assms(1) by (simp add: onExpandClick_def)
next
  assume nd: "\<not> isDirectChild nodes edges path nkey"
  from indexOf_first [OF assms(2)] obtain i where
    i: "i < length path" "indexOf path nkey = int i" "path ! i = nkey" "\<forall>j < i. path ! j \<noteq> nkey"
    by blast
  have "nat (int i + 1) = Suc i" by simp
  then have "onExpandClick nodes edges centerKey nkey path = take (Suc i) path"
    using assms(1) nd i(2) by (simp add: onExpandClick_def Let_def)
  with i show "\<exists>i < length path. path ! i = nkey \<and> (\<forall>j < i. path ! j \<noteq> nkey) \<and>
                 onExpandClick nodes edges centerKey nkey path = take (Suc i) path"
    by blast
next
  from indexOf_first [OF assms(2)] obtain i where
    i: "i < length path" "indexOf path nkey = int i" "path ! i = nkey" "\<forall>j < i. path ! j \<noteq> nkey"
    by blast
  have "nat (int i + 1) = Suc i" by simp
  then have "onCollapsedBadgeClick nkey path = take (Suc i) path"
    using i(2) by (simp add: onCollapsedBadgeClick_def Let_def)
  with i show "\<exists>i < length path. path ! i = nkey \<and> (\<forall>j < i. path ! j \<noteq> nkey) \<and>
                 onCollapsedBadgeClick nkey path = take (Suc i) path"
    by blast
qed

theorem onExpandClick_on_path_node_witness:
  "''N1'' \<noteq> ''N0'' \<and> ''N1'' \<in> set [''N0'', ''N1'', ''N2'', ''N3''] \<and>
   \<not> isDirectChild (map mk_node chain5) (chain_edges chain5) [''N0'', ''N1'', ''N2'', ''N3''] ''N1'' \<and>
   (\<exists>i < length [''N0'', ''N1'', ''N2'', ''N3''].
      [''N0'', ''N1'', ''N2'', ''N3''] ! i = ''N1'' \<and>
      (\<forall>j < i. [''N0'', ''N1'', ''N2'', ''N3''] ! j \<noteq> ''N1'') \<and>
      onExpandClick (map mk_node chain5) (chain_edges chain5) ''N0'' ''N1''
        [''N0'', ''N1'', ''N2'', ''N3''] = take (Suc i) [''N0'', ''N1'', ''N2'', ''N3''])"
proof -
  have a: "''N1'' \<noteq> ''N0''" by simp
  have b: "''N1'' \<in> set [''N0'', ''N1'', ''N2'', ''N3'']" by simp
  have c: "\<not> isDirectChild (map mk_node chain5) (chain_edges chain5)
               [''N0'', ''N1'', ''N2'', ''N3''] ''N1''"
    by (simp add: path_eval chain5_def)
  from onExpandClick_on_path_node [OF a b, of "map mk_node chain5" "chain_edges chain5"] a b c
  show ?thesis by blast
qed

text \<open>
  Claim C2 as stated fails on the scenario graph: after drilling from \<open>CENTER\<close> to \<open>A\<close> and
  to \<open>C\<close>, a click on \<open>A\<close> (index 1 of the path, connected to the focus \<open>C\<close>) appends \<open>A\<close>
  instead of cutting the path to \<open>[CENTER, A]\<close>.
\<close>

theorem onExpandClick_drill_up_counterexample:
  "onExpandClick scenario_nodes scenario_edges ''CENTER'' ''A'' [''CENTER''] = [''CENTER'', ''A''] \<and>
   onExpandClick scenario_nodes scenario_edges ''CENTER'' ''C'' [''CENTER'', ''A'']
     = [''CENTER'', ''A'', ''C''] \<and>
   onExpandClick scenario_nodes scenario_edges ''CENTER'' ''A'' [''CENTER'', ''A'', ''C'']
     = [''CENTER'', ''A'', ''C'', ''A'']"
  by (simp add: path_eval scenario_nodes_def scenario_edges_def)




section \<open>Properties of the viewport fit\<close>

lemma isFinite_js_add [simp]: "isFinite (js_add a (Finite c)) = isFinite a"
  by (simp add: js_add_def isFinite_def split: jsnum.splits)

lemma isFinite_js_sub [simp]: "isFinite (js_sub a (Finite c)) = isFinite a"
  by (simp add: js_sub_def js_neg_def js_add_def isFinite_def split: jsnum.splits)

lemma isFinite_iff: "isFinite a \<longleftrightarrow> (\<exists>r. a = Finite r)"
  by (cases a) (simp_all add: isFinite_def)

lemma all_finite_not_doomed: "all_finite bs \<Longrightarrow> \<not> doomed bs"
  by (auto simp: all_finite_def doomed_def isFinite_def)

lemma Math_min_doomed:
  "m = NaN \<or> m = NegInfinity \<Longrightarrow> Math_min m v = NaN \<or> Math_min m v = NegInfinity"
  by (cases v) (auto simp: Math_min_def)

lemma Math_max_doomed:
  "m = NaN \<or> m = PosInfinity \<Longrightarrow> Math_max m v = NaN \<or> Math_max m v = PosInfinity"
  by (cases v) (auto simp: Math_max_def)

lemma Math_min_bad:
  "v = NaN \<or> v = NegInfinity \<Longrightarrow> Math_min m v = NaN \<or> Math_min m v = NegInfinity"
  by (cases m) (auto simp: Math_min_def)

lemma Math_max_bad:
  "v = NaN \<or> v = PosInfinity \<Longrightarrow> Math_max m v = NaN \<or> Math_max m v = PosInfinity"
  by (cases m) (auto simp: Math_max_def)

lemma Math_min_good:
  "m = PosInfinity \<or> isFinite m \<Longrightarrow> isFinite (Math_min m (Finite v))"
  by (cases m) (auto simp: Math_min_def isFinite_def)

lemma Math_max_good:
  "m = NegInfinity \<or> isFinite m \<Longrightarrow> isFinite (Math_max m (Finite v))"
  by (cases m) (auto simp: Math_max_def isFinite_def)

lemma not_doomed_fields:
  assumes "\<not> doomed bs"
  shows "b_minX bs = PosInfinity \<or> isFinite (b_minX bs)"
    "b_minY bs = PosInfinity \<or> isFinite (b_minY bs)"
    "b_maxX bs = NegInfinity \<or> isFinite (b_maxX bs)"
    "b_maxY bs = NegInfinity \<or> isFinite (b_maxY bs)"
proof -
  show "b_minX bs = PosInfinity \<or> isFinite (b_minX bs)"
    using assms by (cases "b_minX bs") (simp_all add: doomed_def isFinite_def)
  show "b_minY bs = PosInfinity \<or> isFinite (b_minY bs)"
    using assms by (cases "b_minY bs") (simp_all add: doomed_def isFinite_def)
  show "b_maxX bs = NegInfinity \<or> isFinite (b_maxX bs)"
    using assms by (cases "b_maxX bs") (simp_all add: doomed_def isFinite_def)
  show "b_maxY bs = NegInfinity \<or> isFinite (b_maxY bs)"
    using assms by (cases "b_maxY bs") (simp_all add: doomed_def isFinite_def)
qed

text \<open>One step of the bounds, with minima \<open>a\<close>, \<open>b\<close> and maxima \<open>c\<close>, \<open>d\<close>.\<close>

lemma step_doomed:
  assumes "doomed bs"
  shows "doomed \<lparr>b_minX = Math_min (b_minX bs) a, b_minY = Math_min (b_minY bs) b,
                 b_maxX = Math_max (b_maxX bs) c, b_maxY = Math_max (b_maxY bs) d\<rparr>"
proof -
  from assms consider
    "b_minX bs = NaN \<or> b_minX bs = NegInfinity" | "b_minY bs = NaN \<or> b_minY bs = NegInfinity" |
    "b_maxX bs = NaN \<or> b_maxX bs = PosInfinity" | "b_maxY bs = NaN \<or> b_maxY bs = PosInfinity"
    unfolding doomed_def by blast
  then show ?thesis
  proof cases
    case 1
    from Math_min_doomed [OF this, of a] show ?thesis by (auto simp: doomed_def)
  next
    case 2
    from Math_min_doomed [OF this, of b] show ?thesis by (auto simp: doomed_def)
  next
    case 3
    from Math_max_doomed [OF this, of c] show ?thesis by (auto simp: doomed_def)
  next
    case 4
    from Math_max_doomed [OF this, of d] show ?thesis by (auto simp: doomed_def)
  qed
qed

lemma step_finite:
  assumes "\<not> doomed bs"
  shows "all_finite \<lparr>b_minX = Math_min (b_minX bs) (Finite a), b_minY = Math_min (b_minY bs) (Finite b),
                     b_maxX = Math_max (b_maxX bs) (Finite c), b_maxY = Math_max (b_maxY bs) (Finite d)\<rparr>"
  using not_doomed_fields [OF assms]
  by (simp add: all_finite_def Math_min_good Math_max_good)

text \<open>
  A coordinate \<open>v\<close> that is not finite, entering as \<open>v - c\<close> on the side of the minimum and as
  \<open>v + c\<close> on the side of the maximum.
\<close>

lemma coordinate_bad:
  assumes "\<not> isFinite v"
  shows "(Math_min m (js_sub v (Finite c)) = NaN \<or> Math_min m (js_sub v (Finite c)) = NegInfinity) \<or>
         (Math_max n (js_add v (Finite c)) = NaN \<or> Math_max n (js_add v (Finite c)) = PosInfinity)"
proof (cases v)
  case NaN
  then have "Math_min m (js_sub v (Finite c)) = NaN \<or> Math_min m (js_sub v (Finite c)) = NegInfinity"
    by (intro Math_min_bad) (simp add: js_sub_def js_neg_def js_add_def)
  then show ?thesis ..
next
  case NegInfinity
  then have "Math_min m (js_sub v (Finite c)) = NaN \<or> Math_min m (js_sub v (Finite c)) = NegInfinity"
    by (intro Math_min_bad) (simp add: js_sub_def js_neg_def js_add_def)
  then show ?thesis ..
next
  case (Finite r)
  with assms show ?thesis by (simp add: isFinite_def)
next
  case PosInfinity
  then have "Math_max n (js_add v (Finite c)) = NaN \<or> Math_max n (js_add v (Finite c)) = PosInfinity"
    by (intro Math_max_bad) (simp add: js_add_def)
  then show ?thesis ..
qed

lemma grow_doomed: "doomed bs \<Longrightarrow> doomed (grow a b bs)"
  unfolding grow_def by (rule step_doomed)

lemma grow_finite: "\<not> doomed bs \<Longrightarrow> all_finite (grow (Finite a) (Finite b) bs)"
  unfolding grow_def by (rule step_finite)

lemma grow_bad:
  assumes "\<not> isFinite a \<or> \<not> isFinite b"
  shows "doomed (grow a b bs)"
proof -
  have bad: "v = NaN \<or> v = NegInfinity \<or> v = PosInfinity" if "\<not> isFinite v" for v
    using that by (cases v) (simp_all add: isFinite_def)
  have one: "(Math_min m v = NaN \<or> Math_min m v = NegInfinity) \<or>
             (Math_max n v = NaN \<or> Math_max n v = PosInfinity)" if "\<not> isFinite v" for m n v
    using bad [OF that] Math_min_bad [of v m] Math_max_bad [of v n] by blast
  from assms show ?thesis
  proof
    assume "\<not> isFinite a"
    from one [OF this, of "b_minX bs" "b_maxX bs"] show ?thesis
      by (auto simp: grow_def doomed_def)
  next
    assume "\<not> isFinite b"
    from one [OF this, of "b_minY bs" "b_maxY bs"] show ?thesis
      by (auto simp: grow_def doomed_def)
  qed
qed

text \<open>
  A loop over the positions whose body keeps bounds doomed, makes them finite at a finite
  position and dooms them at any other.
\<close>

lemma fold_bounds:
  fixes f :: "string \<times> NumPos \<Rightarrow> jsnum Bounds \<Rightarrow> jsnum Bounds"
  assumes d: "\<And>kp bs. doomed bs \<Longrightarrow> doomed (f kp bs)"
    and g: "\<And>kp bs. finite_pos (snd kp) \<Longrightarrow> \<not> doomed bs \<Longrightarrow> all_finite (f kp bs)"
    and b: "\<And>kp bs. \<not> finite_pos (snd kp) \<Longrightarrow> doomed (f kp bs)"
  shows "(doomed bs \<longrightarrow> doomed (fold f ps bs)) \<and>
         ((\<exists>kp \<in> set ps. \<not> finite_pos (snd kp)) \<longrightarrow> doomed (fold f ps bs)) \<and>
         (\<not> doomed bs \<and> ps \<noteq> [] \<and> (\<forall>kp \<in> set ps. finite_pos (snd kp)) \<longrightarrow>
            all_finite (fold f ps bs))"
proof (induction ps arbitrary: bs)
  case Nil
  show ?case by simp
next
  case (Cons kp ps)
  note ih = Cons.IH [of "f kp bs"]
  show ?case
  proof (intro conjI impI)
    assume "doomed bs"
    then have "doomed (f kp bs)" by (rule d)
    with ih show "doomed (fold f (kp # ps) bs)" by simp
  next
    assume ex: "\<exists>kp \<in> set (kp # ps). \<not> finite_pos (snd kp)"
    show "doomed (fold f (kp # ps) bs)"
    proof (cases "finite_pos (snd kp)")
      case True
      with ex have "\<exists>kp \<in> set ps. \<not> finite_pos (snd kp)" by auto
      with ih show ?thesis by simp
    next
      case False
      then have "doomed (f kp bs)" by (rule b)
      with ih show ?thesis by simp
    qed
  next
    assume a: "\<not> doomed bs \<and> kp # ps \<noteq> [] \<and> (\<forall>kp \<in> set (kp # ps). finite_pos (snd kp))"
    then have fin: "all_finite (f kp bs)" by (simp add: g)
    show "all_finite (fold f (kp # ps) bs)"
    proof (cases ps)
      case Nil
      with fin show ?thesis by simp
    next
      case (Cons q qs)
      from fin have "\<not> doomed (f kp bs)" by (rule all_finite_not_doomed)
      with ih a Cons show ?thesis by simp
    qed
  qed
qed

lemma finite_posD: "finite_pos p \<Longrightarrow> \<exists>a b. num_x p = Finite a \<and> num_y p = Finite b"
  by (simp add: finite_pos_def isFinite_iff)

lemma boxes_step:
  fixes kp :: "string \<times> NumPos"
  defines "f \<equiv> \<lambda>(k :: string, p) bs.
                 grow (js_add (num_x p) (Finite (NODE_BOX_WIDTH / 2)))
                      (js_add (num_y p) (Finite (NODE_BOX_HEIGHT / 2)))
                   (grow (js_sub (num_x p) (Finite (NODE_BOX_WIDTH / 2)))
                         (js_sub (num_y p) (Finite (NODE_BOX_HEIGHT / 2))) bs)"
  shows "doomed bs \<Longrightarrow> doomed (f kp bs)"
    and "finite_pos (snd kp) \<Longrightarrow> \<not> doomed bs \<Longrightarrow> all_finite (f kp bs)"
    and "\<not> finite_pos (snd kp) \<Longrightarrow> doomed (f kp bs)"
proof -
  obtain k p where kp: "kp = (k, p)" by (cases kp)
  show "doomed bs \<Longrightarrow> doomed (f kp bs)"
    by (simp add: f_def kp grow_doomed)
  show "all_finite (f kp bs)" if "finite_pos (snd kp)" "\<not> doomed bs"
  proof -
    from finite_posD [of p] that(1) obtain a b where "num_x p = Finite a" "num_y p = Finite b"
      by (auto simp: kp)
    then show ?thesis
      using that(2)
      by (simp add: f_def kp js_add_def js_sub_def js_neg_def grow_finite all_finite_not_doomed)
  qed
  show "doomed (f kp bs)" if "\<not> finite_pos (snd kp)"
  proof -
    from that have "\<not> isFinite (js_sub (num_x p) (Finite (NODE_BOX_WIDTH / 2))) \<or>
                    \<not> isFinite (js_sub (num_y p) (Finite (NODE_BOX_HEIGHT / 2)))"
      by (simp add: kp finite_pos_def)
    then have "doomed (grow (js_sub (num_x p) (Finite (NODE_BOX_WIDTH / 2)))
                         (js_sub (num_y p) (Finite (NODE_BOX_HEIGHT / 2))) bs)"
      by (rule grow_bad)
    then show ?thesis by (simp add: f_def kp grow_doomed)
  qed
qed

lemma centers_step:
  fixes kp :: "string \<times> NumPos"
  defines "f \<equiv> \<lambda>(k :: string, p) bs. let c = getNodeIconCenter p in grow (num_x c) (num_y c) bs"
  shows "doomed bs \<Longrightarrow> doomed (f kp bs)"
    and "finite_pos (snd kp) \<Longrightarrow> \<not> doomed bs \<Longrightarrow> all_finite (f kp bs)"
    and "\<not> finite_pos (snd kp) \<Longrightarrow> doomed (f kp bs)"
proof -
  obtain k p where kp: "kp = (k, p)" by (cases kp)
  show "doomed bs \<Longrightarrow> doomed (f kp bs)"
    by (simp add: f_def kp grow_doomed Let_def)
  show "all_finite (f kp bs)" if "finite_pos (snd kp)" "\<not> doomed bs"
  proof -
    from finite_posD [of p] that(1) obtain a b where "num_x p = Finite a" "num_y p = Finite b"
      by (auto simp: kp)
    then show ?thesis
      using that(2)
      by (simp add: f_def kp getNodeIconCenter_def js_add_def grow_finite Let_def)
  qed
  show "doomed (f kp bs)" if "\<not> finite_pos (snd kp)"
  proof -
    from that have "\<not> isFinite (num_x p) \<or> \<not> isFinite (js_add (num_y p) (Finite iconCenterYOffset))"
      by (simp add: kp finite_pos_def)
    then have "doomed (grow (num_x p) (js_add (num_y p) (Finite iconCenterYOffset)) bs)"
      by (rule grow_bad)
    then show ?thesis by (simp add: f_def kp getNodeIconCenter_def Let_def)
  qed
qed

text \<open>When \<open>computeGraphBounds\<close> returns \<open>null\<close>.\<close>

lemma computeGraphBounds_None_iff:
  "computeGraphBounds positions = None \<longleftrightarrow>
     positions = [] \<or> (\<exists>kp \<in> set positions. \<not> finite_pos (snd kp))"
proof -
  let ?boxes = "\<lambda>(k :: string, p) bs.
                 grow (js_add (num_x p) (Finite (NODE_BOX_WIDTH / 2)))
                      (js_add (num_y p) (Finite (NODE_BOX_HEIGHT / 2)))
                   (grow (js_sub (num_x p) (Finite (NODE_BOX_WIDTH / 2)))
                         (js_sub (num_y p) (Finite (NODE_BOX_HEIGHT / 2))) bs)"
  let ?centers = "\<lambda>(k :: string, p) bs. let c = getNodeIconCenter p in grow (num_x c) (num_y c) bs"
  let ?b1 = "fold ?boxes positions no_bounds"
  let ?b2 = "fold ?centers positions ?b1"
  note B = fold_bounds [of ?boxes, OF boxes_step]
  note C = fold_bounds [of ?centers, OF centers_step]
  have none: "computeGraphBounds positions = None \<longleftrightarrow> \<not> all_finite ?b2"
    unfolding computeGraphBounds_def Let_def all_finite_def by simp
  have fresh: "\<not> doomed no_bounds" "\<not> all_finite no_bounds"
    by (simp_all add: doomed_def no_bounds_def all_finite_def isFinite_def)
  show ?thesis
  proof (cases "positions = []")
    case True
    then show ?thesis using none fresh by simp
  next
    case ne: False
    show ?thesis
    proof (cases "\<exists>kp \<in> set positions. \<not> finite_pos (snd kp)")
      case True
      with C [of ?b1 positions] have "doomed ?b2" by blast
      then have "\<not> all_finite ?b2" using all_finite_not_doomed by blast
      with none True show ?thesis by simp
    next
      case False
      with B [of no_bounds positions] fresh ne have "all_finite ?b1" by blast
      then have "\<not> doomed ?b1" by (rule all_finite_not_doomed)
      with C [of ?b1 positions] False ne have "all_finite ?b2" by blast
      with none False ne show ?thesis by simp
    qed
  qed
qed

text \<open>
  Claim C6, as the code has it. \<open>computeGraphBounds\<close> returns no bounds exactly when the
  position map is empty or holds a position with a coordinate that is not finite (\<open>NaN\<close>,
  \<open>Infinity\<close> or \<open>-Infinity\<close>): these are the maps that yield no finite bounding box. Then
  \<open>zoomToFit\<close> returns without applying any transform, whatever the viewport: it is a no-op,
  and raises nothing. It applies a transform exactly when there are bounds and the viewport
  has a width and a height.
\<close>

theorem zoomToFit_without_bounds:
  "(computeGraphBounds positions = None \<longleftrightarrow>
      positions = [] \<or> (\<exists>kp \<in> set positions. \<not> finite_pos (snd kp))) \<and>
   (positions = [] \<or> computeGraphBounds positions = None \<longrightarrow>
      zoomToFit positions measuredWidth measuredHeight minZoom maxZoom didInitialFit = None) \<and>
   (zoomToFit positions measuredWidth measuredHeight minZoom maxZoom didInitialFit = None \<longleftrightarrow>
      computeGraphBounds positions = None \<or> measuredWidth = 0 \<or> measuredHeight = 0)"
  using computeGraphBounds_None_iff [of positions]
  by (auto simp: zoomToFit_def Let_def split: option.splits)

theorem zoomToFit_without_bounds_witness:
  "(\<exists>kp \<in> set nan_positions. \<not> finite_pos (snd kp)) \<and>
   computeGraphBounds nan_positions = None \<and>
   zoomToFit nan_positions 800 600 (1 / 4) 3 False = None \<and>
   computeGraphBounds [] = None \<and> zoomToFit [] 800 600 (1 / 4) 3 False = None"
proof -
  have bad: "\<exists>kp \<in> set nan_positions. \<not> finite_pos (snd kp)"
    by (simp add: nan_positions_def finite_pos_def isFinite_def)
  from zoomToFit_without_bounds [of nan_positions 800 600 "1 / 4" 3 False] bad
  have "computeGraphBounds nan_positions = None \<and>
        zoomToFit nan_positions 800 600 (1 / 4) 3 False = None"
    by blast
  moreover from zoomToFit_without_bounds [of "[]" 800 600 "1 / 4" 3 False]
  have "computeGraphBounds [] = None \<and> zoomToFit [] 800 600 (1 / 4) 3 False = None"
    by blast
  ultimately show ?thesis using bad by blast
qed

text \<open>
  Claim C6 as stated fails: on the empty position map, and on a map with a \<open>NaN\<close>
  coordinate, \<open>zoomToFit\<close> yields no transform at all, whatever the viewport, rather than a
  sentinel transform computed from the viewport.
\<close>

theorem zoomToFit_sentinel_counterexample:
  "zoomToFit [] 800 600 (1 / 4) 3 False = None \<and> zoomToFit [] 1024 768 (1 / 4) 3 True = None \<and>
   zoomToFit nan_positions 800 600 (1 / 4) 3 False = None"
  by (simp add: zoomToFit_def computeGraphBounds_def nan_positions_def grow_def no_bounds_def
        getNodeIconCenter_def js_add_def js_sub_def js_neg_def Math_min_def Math_max_def
        isFinite_def Let_def)

section \<open>Properties of the grid clustering\<close>

subsection \<open>The group key determines the cell\<close>












lemma not_digit [simp]:
  "\<not> digit CHR ''e''" "\<not> digit CHR ''.''" "\<not> digit CHR ''+''" "\<not> digit CHR ''-''"
  "\<not> digit CHR '',''" "\<not> digit CHR ''N''" "\<not> digit CHR ''I''"
  by (simp_all add: digit_def)

lemma not_numeral_char [simp]:
  "\<not> numeral_char CHR ''-''" "\<not> numeral_char CHR '',''" "\<not> numeral_char CHR ''N''"
  "\<not> numeral_char CHR ''I''"
  by (simp_all add: numeral_char_def)
















subsection \<open>The bounds of a group\<close>

lemma Math_min_Min:
  "finite S \<Longrightarrow> S \<noteq> {} \<Longrightarrow> Math_min (Finite (Min S)) (Finite v) = Finite (Min (insert v S))"
  by (simp add: Math_min_def min.commute)

lemma Math_max_Max:
  "finite S \<Longrightarrow> S \<noteq> {} \<Longrightarrow> Math_max (Finite (Max S)) (Finite v) = Finite (Max (insert v S))"
  by (simp add: Math_max_def max.commute)

lemma add_box_doomed: "doomed bs \<Longrightarrow> doomed (add_box p bs)"
  unfolding add_box_def by (rule step_doomed)

lemma add_box_bad:
  assumes "\<not> finite_pos p"
  shows "doomed (add_box p bs)"
proof -
  from assms have "\<not> isFinite (num_x p) \<or> \<not> isFinite (num_y p)" by (simp add: finite_pos_def)
  then show ?thesis
  proof
    assume "\<not> isFinite (num_x p)"
    from coordinate_bad [OF this, of "b_minX bs" padX "b_maxX bs"] show ?thesis
      by (auto simp: add_box_def doomed_def)
  next
    assume "\<not> isFinite (num_y p)"
    from coordinate_bad [OF this, of "b_minY bs" padY "b_maxY bs"] show ?thesis
      by (auto simp: add_box_def doomed_def)
  qed
qed

lemma add_box_single:
  assumes "map_of positions m = Some p" "finite_pos p"
  shows "add_box p no_bounds = padded_box positions [m]"
proof -
  from finite_posD [OF assms(2)] obtain a b where "num_x p = Finite a" "num_y p = Finite b"
    by blast
  then show ?thesis
    using assms(1)
    by (simp add: add_box_def no_bounds_def padded_box_def member_pos_def finite_value_def
          js_add_def js_sub_def js_neg_def Math_min_def Math_max_def)
qed

lemma add_box_snoc:
  assumes "map_of positions m = Some p" "finite_pos p" "ms \<noteq> []"
  shows "add_box p (padded_box positions ms) = padded_box positions (ms @ [m])"
proof -
  from finite_posD [OF assms(2)] obtain a b where ab: "num_x p = Finite a" "num_y p = Finite b"
    by blast
  have ne: "f ` set ms \<noteq> {}" "finite (f ` set ms)" for f :: "string \<Rightarrow> real"
    using assms(3) by simp_all
  show ?thesis
    using assms(1) ab
    by (simp add: add_box_def padded_box_def member_pos_def finite_value_def
          js_add_def js_sub_def js_neg_def Math_min_Min [OF ne(2) ne(1)]
          Math_max_Max [OF ne(2) ne(1)])
qed




lemma members_finite_snoc:
  "map_of positions m = Some p \<Longrightarrow>
   members_finite positions (ms @ [m]) = (members_finite positions ms \<and> finite_pos p)"
  by (auto simp: members_finite_def member_pos_def)

subsection \<open>The loop over the nodes\<close>

lemma cluster_node_no_position:
  "map_of positions (key n) = None \<Longrightarrow> cluster_node gs positions n (gm, n2g) = (gm, n2g)"
  by (simp add: cluster_node_def)

lemma cluster_node_fst:
  assumes "map_of positions (key n) = Some p"
  shows "fst (cluster_node gs positions n (gm, n2g)) =
           js_set gm (cell_key gs p)
             (case map_of gm (cell_key gs p) of
                None \<Rightarrow> \<lparr>cg_key = cell_key gs p, members = [key n], bounds = add_box p no_bounds,
                          center = \<lparr>num_x = Finite 0, num_y = Finite 0\<rparr>\<rparr>
              | Some g \<Rightarrow> g\<lparr>members := members g @ [key n], bounds := add_box p (bounds g)\<rparr>)"
  using assms
  by (simp add: cluster_node_def Let_def add_box_def split: option.splits flip: cell_key_def)

lemma cluster_node_step:
  assumes "cluster_inv gs positions gm" "map_of positions (key n) = Some p"
  shows "\<exists>g'. fst (cluster_node gs positions n (gm, n2g)) = js_set gm (cell_key gs p) g' \<and>
              group_ok gs positions (cell_key gs p) g' \<and>
              members g' = (case map_of gm (cell_key gs p) of None \<Rightarrow> [] | Some g \<Rightarrow> members g)
                           @ [key n]"
proof (cases "map_of gm (cell_key gs p)")
  case None
  let ?g = "\<lparr>cg_key = cell_key gs p, members = [key n], bounds = add_box p no_bounds,
             center = \<lparr>num_x = Finite 0, num_y = Finite 0\<rparr>\<rparr>"
  have "fst (cluster_node gs positions n (gm, n2g)) = js_set gm (cell_key gs p) ?g"
    using None by (simp add: cluster_node_fst [OF assms(2)])
  moreover have "group_ok gs positions (cell_key gs p) ?g"
  proof (cases "finite_pos p")
    case True
    then show ?thesis
      using assms(2) add_box_single [OF assms(2) True]
      by (simp add: group_ok_def members_finite_def member_pos_def)
  next
    case False
    then show ?thesis
      using assms(2) add_box_bad [OF False, of no_bounds]
      by (simp add: group_ok_def members_finite_def member_pos_def)
  qed
  ultimately show ?thesis using None by (intro exI [of _ ?g]) simp
next
  case (Some g)
  with assms(1) have ok: "group_ok gs positions (cell_key gs p) g"
    unfolding cluster_inv_def by blast
  let ?g = "g\<lparr>members := members g @ [key n], bounds := add_box p (bounds g)\<rparr>"
  have ne: "members g \<noteq> []" using ok by (simp add: group_ok_def)
  have "fst (cluster_node gs positions n (gm, n2g)) = js_set gm (cell_key gs p) ?g"
    using Some by (simp add: cluster_node_fst [OF assms(2)])
  moreover have "group_ok gs positions (cell_key gs p) ?g"
  proof -
    have mem: "\<forall>m \<in> set (members g @ [key n]).
                 \<exists>q. map_of positions m = Some q \<and> cell_key gs q = cell_key gs p"
      using ok assms(2) by (auto simp: group_ok_def)
    have box: "if members_finite positions (members g @ [key n])
               then add_box p (bounds g) = padded_box positions (members g @ [key n])
               else doomed (add_box p (bounds g))"
    proof (cases "members_finite positions (members g)")
      case True
      with ok have b: "bounds g = padded_box positions (members g)" by (simp add: group_ok_def)
      show ?thesis
      proof (cases "finite_pos p")
        case p: True
        with True show ?thesis
          by (simp add: members_finite_snoc [OF assms(2)] b add_box_snoc [OF assms(2) p ne])
      next
        case p: False
        then show ?thesis
          by (simp add: members_finite_snoc [OF assms(2)] add_box_bad)
      qed
    next
      case False
      with ok have "doomed (bounds g)" by (simp add: group_ok_def)
      then have "doomed (add_box p (bounds g))" by (rule add_box_doomed)
      with False show ?thesis by (simp add: members_finite_snoc [OF assms(2)])
    qed
    from ok mem box show ?thesis by (simp add: group_ok_def)
  qed
  ultimately show ?thesis using Some by (intro exI [of _ ?g]) simp
qed

lemma cluster_inv_js_set:
  "cluster_inv gs positions gm \<Longrightarrow> group_ok gs positions k g \<Longrightarrow>
   cluster_inv gs positions (js_set gm k g)"
  by (simp add: cluster_inv_def map_fst_js_set map_of_js_set)

lemma cluster_node_inv:
  assumes "cluster_inv gs positions gm"
  shows "cluster_inv gs positions (fst (cluster_node gs positions n (gm, n2g)))"
proof (cases "map_of positions (key n)")
  case None
  then show ?thesis using assms by (simp add: cluster_node_no_position)
next
  case (Some p)
  from cluster_node_step [OF assms Some, of n2g] obtain g' where
    g': "fst (cluster_node gs positions n (gm, n2g)) = js_set gm (cell_key gs p) g'"
        "group_ok gs positions (cell_key gs p) g'"
    by blast
  from assms g'(2) show ?thesis unfolding g'(1) by (rule cluster_inv_js_set)
qed

lemma fold_cluster_node_inv:
  "cluster_inv gs positions (fst st) \<Longrightarrow>
   cluster_inv gs positions (fst (fold (cluster_node gs positions) ns st))"
proof (induction ns arbitrary: st)
  case Nil
  then show ?case by simp
next
  case (Cons n ns)
  obtain gm n2g where st: "st = (gm, n2g)" by (cases st)
  from cluster_node_inv [of gs positions gm n n2g] Cons.prems
  have "cluster_inv gs positions (fst (cluster_node gs positions n st))" by (simp add: st)
  from Cons.IH [OF this] show ?case by simp
qed

lemma groups_map_of_inv: "cluster_inv gs positions (groups_map_of gs positions nodes)"
  unfolding groups_map_of_def by (rule fold_cluster_node_inv) (simp add: cluster_inv_def)

subsection \<open>The members that are kept, for a positive grid size\<close>






subsection \<open>The finalizing loop and the result\<close>

lemma finalize_group_fst:
  "fst (finalize_group g (acc, P, B)) = acc @ (if all_finite (bounds g) then [with_center g] else [])"
  by (simp add: finalize_group_def with_center_def all_finite_def Let_def)

lemma fold_finalize_group:
  "fst (fold finalize_group gs st) =
     fst st @ map with_center (filter (\<lambda>g. all_finite (bounds g)) gs)"
proof (induction gs arbitrary: st)
  case Nil
  show ?case by simp
next
  case (Cons g gs)
  obtain acc P B where st: "st = (acc, P, B)" by (cases st)
  have "fst (finalize_group g st) =
          fst st @ (if all_finite (bounds g) then [with_center g] else [])"
    by (simp add: st finalize_group_fst)
  with Cons.IH [of "finalize_group g st"] show ?case by simp
qed



lemma with_center_fields [simp]:
  "members (with_center g) = members g" "cg_key (with_center g) = cg_key g"
  "bounds (with_center g) = bounds g"
  by (simp_all add: with_center_def)

lemma computeGridClusters_groups:
  "groups (computeGridClusters lc nodes positions gridSize) =
     sort_cmp (\<lambda>a b. lc (cg_key a) (cg_key b))
       (map with_center (filter (\<lambda>g. all_finite (bounds g))
          (map snd (groups_map_of gridSize positions nodes))))"
  unfolding computeGridClusters_def groups_map_of_def
  using fold_finalize_group
          [of "map snd (fst (fold (cluster_node gridSize positions) nodes ([], [])))" "([], [], [])"]
  by (simp add: case_prod_beta)



text \<open>What the invariant gives for each group of the result.\<close>

lemma result_group_facts:
  assumes "g \<in> set (groups (computeGridClusters lc nodes positions gridSize))"
  shows "\<exists>g0. g = with_center g0 \<and>
              map_of (groups_map_of gridSize positions nodes) (cg_key g) = Some g0 \<and>
              group_ok gridSize positions (cg_key g) g0 \<and> all_finite (bounds g0)"
proof -
  let ?gm = "groups_map_of gridSize positions nodes"
  note inv = groups_map_of_inv [of gridSize positions nodes]
  from assms obtain k g0 where kg: "(k, g0) \<in> set ?gm" "g = with_center g0" "all_finite (bounds g0)"
    unfolding computeGridClusters_groups by (auto simp: sort_cmp_set)
  from inv have "distinct (map fst ?gm)" by (simp add: cluster_inv_def)
  with kg(1) have m: "map_of ?gm k = Some g0" by simp
  with inv have ok: "group_ok gridSize positions k g0" unfolding cluster_inv_def by blast
  then have "cg_key g = k" using kg(2) by (simp add: group_ok_def)
  with m ok kg(2,3) show ?thesis by blast
qed




subsection \<open>The clustering on the example maps\<close>

lemmas cluster_eval =
  computeGridClusters_def cluster_node_def finalize_group_def group_key_def number_string_def
  show_int_def show_magnitude_def show_nat.simps no_bounds_def Math_min_def Math_max_def
  Math_floor_def js_div_def js_add_def js_sub_def js_neg_def isFinite_def padX_def padY_def
  NODE_BOX_WIDTH_def NODE_BOX_HEIGHT_def sort_cmp_def mk_node_def pos_at_def Let_def



text \<open>
  The nodes \<open>b\<close> and \<open>d\<close>, whose groups are dropped, stay in \<open>nodeToGroup\<close>.
\<close>

lemma mixed_nodeToGroup:
  "nodeToGroup (computeGridClusters code_compare (map mk_node [''a'', ''b'', ''c'', ''d'', ''e''])
     mixed_positions (Finite 160)) =
     [(''a'', ''G:0,0''), (''b'', ''G:NaN,0''), (''c'', ''G:1,0''), (''d'', ''G:0,Infinity'')]"
  by (simp add: cluster_eval mixed_positions_def)

text \<open>
  A grid size of zero gives cells \<open>NaN\<close> and \<open>Infinity\<close>; the bounds, and so the test of the
  finalizing loop, do not depend on the grid size.
\<close>

lemma zero_grid_groups:
  "map (\<lambda>g. (cg_key g, members g, center g))
     (groups (computeGridClusters code_compare (map mk_node [''a'', ''b'', ''c'']) cell_positions
        (Finite 0))) =
     [(''G:Infinity,NaN'', [''c''], pos_at 90 0), (''G:NaN,NaN'', [''a'', ''b''], pos_at 0 0)]"
  by (simp add: cluster_eval cell_positions_def)

text \<open>The printed form of a cell coordinate below and from \<open>10^21\<close>.\<close>

lemma number_string_examples:
  "number_string (Finite 999999999999999999999) = ''999999999999999999999''"
  "number_string (Finite 1000000000000000000000) = ''1e+21''"
  "number_string (Finite (- 1200000000000000000000)) = ''-1.2e+21''"
  by (simp_all add: number_string_def show_int_def show_magnitude_def show_exponential_def
        show_nat.simps strip_zeros_def mantissa_def)






section \<open>Properties of the edge aggregation\<close>

lemma distinct_js_set: "distinct (map fst m) \<Longrightarrow> distinct (map fst (js_set m k v))"
  by (simp add: map_fst_js_set)

text \<open>The step of the loop, in its two cases.\<close>

lemma aggregate_edge_skip:
  assumes "\<not> (\<exists>gf gt. map_of n2g (edge_from e) = Some gf \<and> map_of n2g (edge_to e) = Some gt \<and>
                 counted_pair sizes gf gt)"
  shows "aggregate_edge n2g sizes e m = m"
  using assms
  by (auto simp: aggregate_edge_def counted_pair_def split: option.splits)

lemma aggregate_edge_count:
  assumes "map_of n2g (edge_from e) = Some gf" "map_of n2g (edge_to e) = Some gt"
    "counted_pair sizes gf gt"
  shows "aggregate_edge n2g sizes e m =
           js_set m gf (js_set (case map_of m gf of None \<Rightarrow> [] | Some i \<Rightarrow> i) gt
                          (count_of m gf gt + 1))"
  using assms
  by (auto simp: aggregate_edge_def counted_pair_def count_of_def Let_def split: option.splits)

lemma count_of_bump:
  "count_of (js_set m gf (js_set (case map_of m gf of None \<Rightarrow> [] | Some i \<Rightarrow> i) gt
                            (count_of m gf gt + 1))) gf' gt' =
     count_of m gf' gt' + (if gf' = gf \<and> gt' = gt then 1 else 0)"
  by (auto simp: count_of_def map_of_js_set split: option.splits)

lemma agg_inv_bump:
  assumes "agg_inv m"
  shows "agg_inv (js_set m gf (js_set (case map_of m gf of None \<Rightarrow> [] | Some i \<Rightarrow> i) gt (c + 1)))"
proof -
  let ?inner = "case map_of m gf of None \<Rightarrow> [] | Some i \<Rightarrow> i"
  have d: "distinct (map fst ?inner)"
    using assms by (auto simp: agg_inv_def split: option.splits)
  have p: "c' > 0" if "map_of ?inner gt' = Some c'" for gt' c'
    using assms that by (auto simp: agg_inv_def split: option.splits)
  show ?thesis
    unfolding agg_inv_def map_of_js_set
    using assms d p
    by (auto simp: agg_inv_def distinct_js_set map_of_js_set split: if_splits)
qed

lemma hits_snoc:
  "hits n2g (es @ [e]) gf gt =
     hits n2g es gf gt +
     (if map_of n2g (edge_from e) = Some gf \<and> map_of n2g (edge_to e) = Some gt then 1 else 0)"
  by (simp add: hits_def)

lemma fold_aggregate_edge:
  assumes "agg_inv m"
    "\<And>gf gt. count_of m gf gt = (if counted_pair sizes gf gt then hits n2g done gf gt else 0)"
  shows "agg_inv (fold (aggregate_edge n2g sizes) es m) \<and>
         (\<forall>gf gt. count_of (fold (aggregate_edge n2g sizes) es m) gf gt =
            (if counted_pair sizes gf gt then hits n2g (done @ es) gf gt else 0))"
  using assms
proof (induction es arbitrary: m "done")
  case Nil
  then show ?case by simp
next
  case (Cons e es)
  let ?m = "aggregate_edge n2g sizes e m"
  have step: "agg_inv ?m \<and>
      (\<forall>gf gt. count_of ?m gf gt = (if counted_pair sizes gf gt then hits n2g (done @ [e]) gf gt else 0))"
  proof (cases "\<exists>gf gt. map_of n2g (edge_from e) = Some gf \<and> map_of n2g (edge_to e) = Some gt \<and>
                 counted_pair sizes gf gt")
    case False
    then have "?m = m" by (rule aggregate_edge_skip)
    moreover have "hits n2g (done @ [e]) gf gt = hits n2g done gf gt" if "counted_pair sizes gf gt" for gf gt
      using False that by (auto simp: hits_snoc)
    ultimately show ?thesis using Cons.prems by simp
  next
    case True
    then obtain gf gt where g: "map_of n2g (edge_from e) = Some gf" "map_of n2g (edge_to e) = Some gt"
      "counted_pair sizes gf gt" by blast
    note eq = aggregate_edge_count [OF g, of m]
    have "agg_inv ?m" unfolding eq using Cons.prems(1) by (rule agg_inv_bump)
    moreover have "count_of ?m gf' gt' =
        (if counted_pair sizes gf' gt' then hits n2g (done @ [e]) gf' gt' else 0)" for gf' gt'
      unfolding eq count_of_bump hits_snoc using Cons.prems(2) g by auto
    ultimately show ?thesis by simp
  qed
  from Cons.IH [of ?m "done @ [e]"] step show ?case by simp
qed

lemma agg_result_set:
  assumes "agg_inv m"
  shows "set (concat (map (\<lambda>(gf, inner).
                 map (\<lambda>(gt, c). \<lparr>agg_from = gf, agg_to = gt, agg_count = c\<rparr>) inner) m)) =
         {\<lparr>agg_from = gf, agg_to = gt, agg_count = c\<rparr> |gf gt c. c > 0 \<and> count_of m gf gt = c}"
    (is "?L = ?R")
proof (intro set_eqI iffI)
  fix a assume "a \<in> ?L"
  then obtain gf inner gt c where
    x: "(gf, inner) \<in> set m" "(gt, c) \<in> set inner"
       "a = \<lparr>agg_from = gf, agg_to = gt, agg_count = c\<rparr>"
    by auto
  from assms x(1) have m: "map_of m gf = Some inner" by (simp add: agg_inv_def)
  with assms have "distinct (map fst inner)" unfolding agg_inv_def by blast
  with x(2) have i: "map_of inner gt = Some c" by simp
  with assms m have "c > 0" unfolding agg_inv_def by blast
  moreover have "count_of m gf gt = c" using m i by (simp add: count_of_def)
  ultimately show "a \<in> ?R" using x(3) by blast
next
  fix a assume "a \<in> ?R"
  then obtain gf gt c where
    x: "a = \<lparr>agg_from = gf, agg_to = gt, agg_count = c\<rparr>" "c > 0" "count_of m gf gt = c"
    by blast
  from x(2,3) obtain inner where m: "map_of m gf = Some inner" and i: "map_of inner gt = Some c"
    by (auto simp: count_of_def split: option.splits)
  from m have "(gf, inner) \<in> set m" by (rule map_of_SomeD)
  moreover from i have "(gt, c) \<in> set inner" by (rule map_of_SomeD)
  ultimately show "a \<in> ?L" using x(1) by force
qed

lemma agg_pairs:
  "map (\<lambda>a. (agg_from a, agg_to a))
     (concat (map (\<lambda>(gf, inner).
                map (\<lambda>(gt, c). \<lparr>agg_from = gf, agg_to = gt, agg_count = c\<rparr>) inner) m)) =
   concat (map (\<lambda>(gf, inner). map (Pair gf) (map fst inner)) m)"
  by (induction m) (simp_all add: case_prod_beta comp_def)

lemma pairs_fst:
  "p \<in> set (concat (map (\<lambda>(gf, inner). map (Pair gf) (map fst inner)) m)) \<Longrightarrow> fst p \<in> fst ` set m"
  by (induction m) (auto simp: case_prod_beta)

lemma distinct_pairs:
  "distinct (map fst m) \<Longrightarrow> (\<forall>x \<in> set m. distinct (map fst (snd x))) \<Longrightarrow>
   distinct (concat (map (\<lambda>(gf, inner). map (Pair gf) (map fst inner)) m))"
proof (induction m)
  case Nil
  show ?case by simp
next
  case (Cons x m)
  obtain gf inner where x: "x = (gf, inner)" by (cases x)
  have d1: "distinct (map (Pair gf) (map fst inner))"
    using Cons.prems(2) unfolding x by (simp add: distinct_map inj_on_def del: map_map)
  have "gf \<notin> fst ` set m" using Cons.prems(1) by (simp add: x)
  then have disj: "set (map (Pair gf) (map fst inner)) \<inter>
       set (concat (map (\<lambda>(gf, inner). map (Pair gf) (map fst inner)) m)) = {}"
    using pairs_fst [of _ m] by fastforce
  have ih: "distinct (concat (map (\<lambda>(gf, inner). map (Pair gf) (map fst inner)) m))"
    using Cons by simp
  have "concat (map (\<lambda>(gf, inner). map (Pair gf) (map fst inner)) (x # m)) =
        map (Pair gf) (map fst inner) @ concat (map (\<lambda>(gf, inner). map (Pair gf) (map fst inner)) m)"
    by (simp add: x)
  then show ?case using d1 disj ih by (simp only: distinct_append)
qed

lemma agg_result_distinct:
  "distinct (map fst m) \<Longrightarrow> (\<forall>x \<in> set m. distinct (map fst (snd x))) \<Longrightarrow>
   distinct (map (\<lambda>a. (agg_from a, agg_to a))
      (concat (map (\<lambda>(gf, inner).
                 map (\<lambda>(gt, c). \<lparr>agg_from = gf, agg_to = gt, agg_count = c\<rparr>) inner) m)))"
  unfolding agg_pairs by (rule distinct_pairs)

text \<open>
  The result in full: the aggregated edges are exactly the records \<open>(gf, gt, c)\<close> where \<open>gf\<close>
  and \<open>gt\<close> are non-empty group keys, different, not both of size 1 (a group without an
  entry in the size map has size 1), and \<open>c > 0\<close> is the number of edges from a node of \<open>gf\<close>
  to a node of \<open>gt\<close>; no ordered pair occurs twice.
\<close>

lemma aggregated_edges_exact:
  "set (computeAggregatedEdges edges n2g groupSizes) =
     {\<lparr>agg_from = gf, agg_to = gt, agg_count = c\<rparr> |gf gt c.
        gf \<noteq> [] \<and> gt \<noteq> [] \<and> gf \<noteq> gt \<and>
        \<not> (group_size groupSizes gf = 1 \<and> group_size groupSizes gt = 1) \<and>
        c = length (filter (\<lambda>e. map_of n2g (edge_from e) = Some gf \<and>
                                 map_of n2g (edge_to e) = Some gt) edges) \<and>
        c > 0} \<and>
   distinct (map (\<lambda>a. (agg_from a, agg_to a)) (computeAggregatedEdges edges n2g groupSizes))"
proof -
  let ?m = "fold (aggregate_edge n2g groupSizes) edges []"
  have "agg_inv []" by (simp add: agg_inv_def)
  moreover have "count_of [] gf gt = (if counted_pair groupSizes gf gt then hits n2g [] gf gt else 0)"
    for gf gt by (simp add: count_of_def hits_def)
  ultimately have inv: "agg_inv ?m"
    and cnt: "\<And>gf gt. count_of ?m gf gt =
                (if counted_pair groupSizes gf gt then hits n2g edges gf gt else 0)"
    using fold_aggregate_edge [of "[]" groupSizes n2g "[]" edges] by simp_all
  have "set (computeAggregatedEdges edges n2g groupSizes) =
        {\<lparr>agg_from = gf, agg_to = gt, agg_count = c\<rparr> |gf gt c. c > 0 \<and> count_of ?m gf gt = c}"
    unfolding computeAggregatedEdges_def by (rule agg_result_set [OF inv])
  also have "\<dots> = {\<lparr>agg_from = gf, agg_to = gt, agg_count = c\<rparr> |gf gt c.
        gf \<noteq> [] \<and> gt \<noteq> [] \<and> gf \<noteq> gt \<and>
        \<not> (group_size groupSizes gf = 1 \<and> group_size groupSizes gt = 1) \<and>
        c = length (filter (\<lambda>e. map_of n2g (edge_from e) = Some gf \<and>
                                 map_of n2g (edge_to e) = Some gt) edges) \<and>
        c > 0}"
    unfolding cnt by (auto simp: counted_pair_def hits_def)
  finally have a: "set (computeAggregatedEdges edges n2g groupSizes) =
     {\<lparr>agg_from = gf, agg_to = gt, agg_count = c\<rparr> |gf gt c.
        gf \<noteq> [] \<and> gt \<noteq> [] \<and> gf \<noteq> gt \<and>
        \<not> (group_size groupSizes gf = 1 \<and> group_size groupSizes gt = 1) \<and>
        c = length (filter (\<lambda>e. map_of n2g (edge_from e) = Some gf \<and>
                                 map_of n2g (edge_to e) = Some gt) edges) \<and>
        c > 0}" .
  have "\<forall>x \<in> set ?m. distinct (map fst (snd x))"
  proof
    fix x assume x: "x \<in> set ?m"
    from inv have "distinct (map fst ?m)" by (simp add: agg_inv_def)
    with x have "map_of ?m (fst x) = Some (snd x)" by simp
    with inv show "distinct (map fst (snd x))" unfolding agg_inv_def by blast
  qed
  then have b: "distinct (map (\<lambda>a. (agg_from a, agg_to a)) (computeAggregatedEdges edges n2g groupSizes))"
    unfolding computeAggregatedEdges_def
    using inv agg_result_distinct [of ?m] by (simp add: agg_inv_def)
  from a b show ?thesis ..
qed


text \<open>
  The maps that the component hands to \<open>computeAggregatedEdges\<close>: the \<open>nodeToGroup\<close> of a
  clustering, whose values are keys \<open>G:cx,cy\<close>, and the sizes \<open>groupSizes_of\<close> of its groups,
  which are member counts of groups with at least one member.
\<close>

lemma cluster_node_snd:
  "map_of (snd (cluster_node gs positions n (gm, n2g))) k = Some g \<Longrightarrow>
   map_of n2g k = Some g \<or> g \<noteq> []"
  by (auto simp: cluster_node_def Let_def map_of_js_set group_key_def
           split: option.splits if_splits)

lemma fold_cluster_node_snd:
  "map_of (snd (fold (cluster_node gs positions) ns st)) k = Some g \<Longrightarrow>
   map_of (snd st) k = Some g \<or> g \<noteq> []"
proof (induction ns arbitrary: st)
  case Nil
  then show ?case by simp
next
  case (Cons n ns)
  obtain gm n2g where st: "st = (gm, n2g)" by (cases st)
  from Cons.IH [of "cluster_node gs positions n st"] Cons.prems
  have "map_of (snd (cluster_node gs positions n st)) k = Some g \<or> g \<noteq> []" by simp
  then show ?case using cluster_node_snd [of gs positions n gm n2g k g] by (auto simp: st)
qed

lemma groupSizes_of_entry:
  "map_of (fold (\<lambda>g m. js_set m (cg_key g) (int (length (members g)))) gs m0) k = Some sz \<Longrightarrow>
   map_of m0 k = Some sz \<or> (\<exists>g \<in> set gs. sz = int (length (members g)))"
proof (induction gs arbitrary: m0)
  case Nil
  then show ?case by simp
next
  case (Cons g gs)
  from Cons.IH [OF Cons.prems [simplified]]
  show ?case by (auto simp: map_of_js_set split: if_splits)
qed

lemma cluster_maps_consistent:
  "(\<forall>k g. map_of (nodeToGroup (computeGridClusters lc nodes positions gridSize)) k = Some g \<longrightarrow>
           g \<noteq> []) \<and>
   (\<forall>g sz. map_of (groupSizes_of (groups (computeGridClusters lc nodes positions gridSize))) g
             = Some sz \<longrightarrow> 1 \<le> sz)"
proof (intro conjI allI impI)
  fix k g
  assume "map_of (nodeToGroup (computeGridClusters lc nodes positions gridSize)) k = Some g"
  then have "map_of (snd (fold (cluster_node gridSize positions) nodes ([], []))) k = Some g"
    by (simp add: computeGridClusters_def case_prod_beta)
  from fold_cluster_node_snd [OF this] show "g \<noteq> []" by simp
next
  fix g sz
  assume "map_of (groupSizes_of (groups (computeGridClusters lc nodes positions gridSize))) g
            = Some sz"
  from groupSizes_of_entry [OF this [unfolded groupSizes_of_def]] obtain g' where
    g': "g' \<in> set (groups (computeGridClusters lc nodes positions gridSize))"
        "sz = int (length (members g'))"
    by auto
  from result_group_facts [OF g'(1)] obtain g0 where
    "g' = with_center g0" "group_ok gridSize positions (cg_key g') g0" by blast
  then have "members g' \<noteq> []" by (simp add: group_ok_def)
  with g'(2) show "1 \<le> sz" by (cases "members g'") simp_all
qed

text \<open>
  Claim C8. On a node-to-group map whose group keys are not empty and a size map whose
  sizes are at least 1, as the component builds them from a clustering (lemma
  \<open>cluster_maps_consistent\<close>), the aggregated edges are exactly the records \<open>(gf, gt, c)\<close>
  where the groups \<open>gf\<close> and \<open>gt\<close> differ, at least one of them has more than one member, and
  \<open>c > 0\<close> is the number of edges from a node of \<open>gf\<close> to a node of \<open>gt\<close>: an edge counts toward
  a pair if and only if its endpoints map to these two groups, in this order. No ordered
  pair occurs twice, and no aggregated edge has both groups of size 1. The size of a group is
  its entry in the size map, and 1 when it has none.
\<close>

theorem computeAggregatedEdges_counts:
  assumes "\<forall>k g. map_of n2g k = Some g \<longrightarrow> g \<noteq> []"
    and "\<forall>g sz. map_of groupSizes g = Some sz \<longrightarrow> 1 \<le> sz"
  shows "set (computeAggregatedEdges edges n2g groupSizes) =
           {\<lparr>agg_from = gf, agg_to = gt, agg_count = c\<rparr> |gf gt c.
              gf \<noteq> gt \<and>
              (group_size groupSizes gf > 1 \<or> group_size groupSizes gt > 1) \<and>
              c = length (filter (\<lambda>e. map_of n2g (edge_from e) = Some gf \<and>
                                       map_of n2g (edge_to e) = Some gt) edges) \<and>
              c > 0} \<and>
         distinct (map (\<lambda>a. (agg_from a, agg_to a)) (computeAggregatedEdges edges n2g groupSizes)) \<and>
         (\<forall>a \<in> set (computeAggregatedEdges edges n2g groupSizes).
            \<not> (group_size groupSizes (agg_from a) = 1 \<and> group_size groupSizes (agg_to a) = 1))"
proof -
  note exact = aggregated_edges_exact [of edges n2g groupSizes]
  have size: "1 \<le> group_size groupSizes g" for g
    using assms(2) by (auto simp: group_size_def split: option.splits)
  have big: "(\<not> (group_size groupSizes gf = 1 \<and> group_size groupSizes gt = 1)) \<longleftrightarrow>
             (group_size groupSizes gf > 1 \<or> group_size groupSizes gt > 1)" for gf gt
    using size [of gf] size [of gt] by arith
  have key: "gf \<noteq> [] \<and> gt \<noteq> []"
    if "0 < length (filter (\<lambda>e. map_of n2g (edge_from e) = Some gf \<and>
                                  map_of n2g (edge_to e) = Some gt) edges)" for gf gt
  proof -
    from that have "filter (\<lambda>e. map_of n2g (edge_from e) = Some gf \<and>
                                  map_of n2g (edge_to e) = Some gt) edges \<noteq> []"
      by simp
    then obtain e where "e \<in> set (filter (\<lambda>e. map_of n2g (edge_from e) = Some gf \<and>
                                  map_of n2g (edge_to e) = Some gt) edges)"
      by (meson last_in_set)
    then have "map_of n2g (edge_from e) = Some gf" "map_of n2g (edge_to e) = Some gt"
      by simp_all
    with assms(1) show ?thesis by blast
  qed
  have "set (computeAggregatedEdges edges n2g groupSizes) =
           {\<lparr>agg_from = gf, agg_to = gt, agg_count = c\<rparr> |gf gt c.
              gf \<noteq> gt \<and>
              (group_size groupSizes gf > 1 \<or> group_size groupSizes gt > 1) \<and>
              c = length (filter (\<lambda>e. map_of n2g (edge_from e) = Some gf \<and>
                                       map_of n2g (edge_to e) = Some gt) edges) \<and>
              c > 0}"
    unfolding conjunct1 [OF exact] big using key by blast
  moreover have "\<forall>a \<in> set (computeAggregatedEdges edges n2g groupSizes).
            \<not> (group_size groupSizes (agg_from a) = 1 \<and> group_size groupSizes (agg_to a) = 1)"
    unfolding conjunct1 [OF exact] by auto
  ultimately show ?thesis using conjunct2 [OF exact] by blast
qed

theorem computeAggregatedEdges_counts_witness:
  "nodeToGroup (computeGridClusters code_compare (map mk_node [''a'', ''b'', ''c'', ''d''])
      spread_positions (Finite 160)) =
     [(''a'', ''G:0,0''), (''b'', ''G:0,0''), (''c'', ''G:1,0'')] \<and>
   groupSizes_of (groups (computeGridClusters code_compare (map mk_node [''a'', ''b'', ''c'', ''d''])
      spread_positions (Finite 160))) = [(''G:0,0'', 2), (''G:1,0'', 1)] \<and>
   set (computeAggregatedEdges
          [mk_edge ''a'' ''c'', mk_edge ''a'' ''b'', mk_edge ''b'' ''c'', mk_edge ''c'' ''d'']
          [(''a'', ''G:0,0''), (''b'', ''G:0,0''), (''c'', ''G:1,0'')]
          [(''G:0,0'', 2), (''G:1,0'', 1)]) =
     {\<lparr>agg_from = ''G:0,0'', agg_to = ''G:1,0'', agg_count = 2\<rparr>}"
proof -
  let ?n2g = "[(''a'', ''G:0,0''), (''b'', ''G:0,0''), (''c'', ''G:1,0'')]"
  let ?sizes = "[(''G:0,0'', 2), (''G:1,0'', 1)] :: (string, int) js_map"
  let ?edges = "[mk_edge ''a'' ''c'', mk_edge ''a'' ''b'', mk_edge ''b'' ''c'', mk_edge ''c'' ''d'']"
  have maps: "nodeToGroup (computeGridClusters code_compare (map mk_node [''a'', ''b'', ''c'', ''d''])
      spread_positions (Finite 160)) = ?n2g"
    "groupSizes_of (groups (computeGridClusters code_compare (map mk_node [''a'', ''b'', ''c'', ''d''])
      spread_positions (Finite 160))) = ?sizes"
    by (simp_all add: cluster_eval spread_positions_def groupSizes_of_def)
  have keys: "\<forall>k g. map_of ?n2g k = Some g \<longrightarrow> g \<noteq> []"
    by (simp split: if_splits)
  have sizes: "\<forall>g sz. map_of ?sizes g = Some sz \<longrightarrow> 1 \<le> sz"
    by (simp split: if_splits)
  from computeAggregatedEdges_counts [OF keys sizes, of ?edges]
  have "distinct (map (\<lambda>a. (agg_from a, agg_to a)) (computeAggregatedEdges ?edges ?n2g ?sizes))"
    by blast
  moreover have "computeAggregatedEdges ?edges ?n2g ?sizes =
      [\<lparr>agg_from = ''G:0,0'', agg_to = ''G:1,0'', agg_count = 2\<rparr>]"
    by (simp add: computeAggregatedEdges_def aggregate_edge_def group_size_def mk_edge_def)
  ultimately show ?thesis using maps by simp
qed

end
